theory Spec2Isabelle
  imports Main "HOL-Library.Sublist" "HOL-Library.Char_ord" "HOL-Library.List_Lexorder"
begin

section \<open>Flowlab launcher: strings, exceptions and the process check\<close>

text \<open>
  The launcher is a Tk application (\<^verbatim>\<open>src/main.py\<close>) whose handlers call the
  operating system. Handlers are embedded as functions over an explicit launcher state
  and an explicit world (the file tree and the log of the processes started). What the
  user answers in a dialog and what the process enumerations deliver are arguments. A
  Python exception is a value of type \<open>exn\<close>; a computation that may raise has type
  \<open>exn + 'a\<close> with \<open>Inl\<close> the raised exception.
\<close>

subsection \<open>Constants\<close>

definition MODDER_EXE :: string where
  "MODDER_EXE = ''FlowlabModdingUtility.exe''"

definition GAMES_FOLDER_NAME :: string where
  "GAMES_FOLDER_NAME = ''games''"

definition MODDED_EXT :: string where
  "MODDED_EXT = ''.exe''"

definition STATUS_POLL_MS :: nat where
  "STATUS_POLL_MS = 2000"

subsection \<open>Strings\<close>

text \<open>
  A character is a code point below 256 and a string is compared as Python compares
  strings, code point by code point (\<open>List_Lexorder\<close> over \<open>Char_ord\<close>).
  \<^verbatim>\<open>str.lower\<close> on these code points maps the letters \<^verbatim>\<open>A\<close> to \<^verbatim>\<open>Z\<close> and
  the letters from U+00C0 to U+00DE, the multiplication sign U+00D7 apart, to the code
  point 32 above; every other code point below 256 is left as it is.
\<close>

definition lower_char :: "char \<Rightarrow> char" where
  "lower_char c =
     (let n = (of_char c :: nat)
      in if (65 \<le> n \<and> n \<le> 90) \<or> (192 \<le> n \<and> n \<le> 222 \<and> n \<noteq> 215) then char_of (n + 32) else c)"

definition lower :: "string \<Rightarrow> string" where
  "lower s = map lower_char s"

text \<open>\<^verbatim>\<open>s.endswith(t)\<close> is \<open>suffix t s\<close>; \<^verbatim>\<open>t in s\<close> is \<open>sublist t s\<close>.\<close>

definition endswith :: "string \<Rightarrow> string \<Rightarrow> bool" where
  "endswith s t = suffix t s"

subsection \<open>Exceptions\<close>

datatype exn =
    ImportError
  | PsutilError
  | FileNotFoundError
  | FileExistsError
  | IsADirectoryError
  | NotADirectoryError
  | PermissionError
  | SameFileError
  | ShutilError
  | CalledProcessError
  | IndexError
  | RecursionError
  | OSError

text \<open>\<^verbatim>\<open>try: body except Exception as e: handler(e)\<close>.\<close>

definition try_except :: "exn + 'a \<Rightarrow> (exn \<Rightarrow> exn + 'a) \<Rightarrow> exn + 'a" where
  "try_except body handler = (case body of Inl e \<Rightarrow> handler e | Inr v \<Rightarrow> Inr v)"

subsection \<open>\<^verbatim>\<open>is_process_running\<close>\<close>

text \<open>
  What the two process enumerations deliver is input from the environment. Iterating
  \<^verbatim>\<open>psutil.process_iter(["name"])\<close> yields processes whose \<^verbatim>\<open>name\<close> may be
  \<^verbatim>\<open>None\<close>, and may raise at any point; a failing \<^verbatim>\<open>import psutil\<close> is an
  enumeration that raises at once. \<^verbatim>\<open>subprocess.check_output(["tasklist"])\<close> returns
  the text or raises.
\<close>

datatype proc_event = Proc "string option" | Raises exn

record proc_env =
  psutil :: "proc_event list"
  tasklist :: "exn + string"

text \<open>
  The \<^verbatim>\<open>for p in psutil.process_iter\<close> loop: \<open>Inr True\<close> is the \<^verbatim>\<open>return True\<close>
  inside it, \<open>Inr False\<close> is the loop running to its end.
\<close>

fun psutil_loop :: "string \<Rightarrow> proc_event list \<Rightarrow> exn + bool" where
  "psutil_loop exe_name [] = Inr False"
| "psutil_loop exe_name (Raises e # ps) = Inl e"
| "psutil_loop exe_name (Proc name # ps) =
     (case name of
        None \<Rightarrow> psutil_loop exe_name ps
      | Some n \<Rightarrow> if n \<noteq> [] \<and> lower n = exe_name then Inr True else psutil_loop exe_name ps)"

definition tasklist_check :: "proc_env \<Rightarrow> string \<Rightarrow> exn + bool" where
  "tasklist_check env exe_name =
     (case tasklist env of Inl e \<Rightarrow> Inl e | Inr out \<Rightarrow> Inr (sublist exe_name (lower out)))"

definition is_process_running :: "proc_env \<Rightarrow> string \<Rightarrow> exn + bool" where
  "is_process_running env exe_name0 =
     (let exe_name = lower exe_name0 in
      case try_except (psutil_loop exe_name (psutil env)) (\<lambda>e. Inr False) of
        Inl e \<Rightarrow> Inl e
      | Inr True \<Rightarrow> Inr True
      | Inr False \<Rightarrow> try_except (tasklist_check env exe_name) (\<lambda>e. Inr False))"

section \<open>Paths\<close>

text \<open>
  A Python path string is modelled by its structure, the three parts into which
  \<^verbatim>\<open>os.path\<close> itself splits it: the drive (always empty on POSIX), whether a root
  follows, and the sequence of the components. The functions of \<^verbatim>\<open>os.path\<close> that
  the launcher applies to paths it has built are functions on this structure. Text
  enters as a path through \<open>path_of_text\<close> (what the user types or picks in a dialog,
  a row read back from a listbox) and leaves through \<open>render\<close> (a row shown in a
  listbox, a sort key, the text of a message). Both depend on the platform:
  \<^verbatim>\<open>posixpath\<close> knows the slash only; \<^verbatim>\<open>ntpath\<close> writes the backslash, reads the
  backslash and the slash, and reads a drive letter or a UNC share in front.
\<close>

datatype platform = Posix | Windows

datatype path = PathD (drive: string) (is_abs: bool) (parts: "string list")

abbreviation Path :: "bool \<Rightarrow> string list \<Rightarrow> path" where
  "Path \<equiv> PathD []"

definition backslash :: char where
  "backslash = CHR 0x5C"

text \<open>\<^verbatim>\<open>os.sep\<close>, and the characters that separate components (\<^verbatim>\<open>sep\<close> and \<^verbatim>\<open>altsep\<close>).\<close>

definition sep :: "platform \<Rightarrow> char" where
  "sep os = (case os of Posix \<Rightarrow> CHR ''/'' | Windows \<Rightarrow> backslash)"

definition is_sep :: "platform \<Rightarrow> char \<Rightarrow> bool" where
  "is_sep os c = (c = CHR ''/'' \<or> (os = Windows \<and> c = backslash))"

text \<open>A text split at every character that satisfies \<open>P\<close>, as \<^verbatim>\<open>s.split(sep)\<close> does.\<close>

fun split_where :: "(char \<Rightarrow> bool) \<Rightarrow> string \<Rightarrow> string list" where
  "split_where P [] = [[]]"
| "split_where P (x # xs) =
     (if P x then [] # split_where P xs
      else (case split_where P xs of [] \<Rightarrow> [[x]] | w # ws \<Rightarrow> (x # w) # ws))"

text \<open>\<^verbatim>\<open>sep.join(names)\<close>.\<close>

fun join_sep :: "char \<Rightarrow> string list \<Rightarrow> string" where
  "join_sep c [] = []"
| "join_sep c [x] = x"
| "join_sep c (x # y # ys) = x @ c # join_sep c (y # ys)"

text \<open>
  \<^verbatim>\<open>s.find(sep, i)\<close> on a text in which every separator counts: the first position
  from \<open>i\<close> on that holds one.
\<close>

definition find_from :: "(char \<Rightarrow> bool) \<Rightarrow> string \<Rightarrow> nat \<Rightarrow> nat option" where
  "find_from P s i =
     (if list_ex P (drop i s) then Some (i + length (takeWhile (\<lambda>c. \<not> P c) (drop i s))) else None)"

text \<open>
  \<^verbatim>\<open>ntpath.splitroot\<close>: drive, root and tail of a text. A text that starts with two
  separators is a UNC or device path, whose drive reaches to the second separator after
  the prefix; a text that starts with one separator has a root and no drive; a colon in
  second position ends a drive letter.
\<close>

definition unc_prefix :: string where
  "unc_prefix = [backslash, backslash, CHR ''?'', backslash, CHR ''u'', CHR ''n'', CHR ''c'', backslash]"

definition nt_splitroot :: "string \<Rightarrow> string \<times> string \<times> string" where
  "nt_splitroot p =
     (if p \<noteq> [] \<and> is_sep Windows (p ! 0)
      then (if 2 \<le> length p \<and> is_sep Windows (p ! 1)
            then (let start = (if map (\<lambda>c. if is_sep Windows c then backslash else lower_char c) (take 8 p)
                                    = unc_prefix then 8 else 2)
                  in case find_from (is_sep Windows) p start of
                       None \<Rightarrow> (p, [], [])
                     | Some i \<Rightarrow>
                         (case find_from (is_sep Windows) p (i + 1) of
                            None \<Rightarrow> (p, [], [])
                          | Some j \<Rightarrow> (take j p, [p ! j], drop (j + 1) p)))
            else ([], [p ! 0], drop 1 p))
      else if 2 \<le> length p \<and> p ! 1 = CHR '':''
      then (if 3 \<le> length p \<and> is_sep Windows (p ! 2) then (take 2 p, [p ! 2], drop 3 p)
            else (take 2 p, [], drop 2 p))
      else ([], [], p))"

text \<open>
  The structure of a text. Empty components (doubled or trailing separators) carry no
  information for the functions below and are dropped.
\<close>

definition path_of_text :: "platform \<Rightarrow> string \<Rightarrow> path" where
  "path_of_text os s =
     (case os of
        Posix \<Rightarrow>
          PathD [] (s \<noteq> [] \<and> hd s = CHR ''/'') (filter (\<lambda>c. c \<noteq> []) (split_where (is_sep Posix) s))
      | Windows \<Rightarrow>
          (case nt_splitroot s of
             (d, r, t) \<Rightarrow> PathD d (r \<noteq> []) (filter (\<lambda>c. c \<noteq> []) (split_where (is_sep Windows) t))))"

definition render :: "platform \<Rightarrow> path \<Rightarrow> string" where
  "render os p = drive p @ (if is_abs p then [sep os] else []) @ join_sep (sep os) (parts p)"

text \<open>
  \<^verbatim>\<open>os.path.join(a, b)\<close>. A second argument with a root discards the directories of
  the first, and keeps the drive of the first when it has none of its own; a second
  argument on another drive discards the first; otherwise the components of the second
  follow those of the first. Drives are compared without regard to case. On POSIX both
  drives are empty and this is \<^verbatim>\<open>posixpath.join\<close>.
\<close>

definition os_path_join :: "path \<Rightarrow> path \<Rightarrow> path" where
  "os_path_join a b =
     (if is_abs b
      then PathD (if drive b \<noteq> [] \<or> drive a = [] then drive b else drive a) True (parts b)
      else if drive b \<noteq> [] \<and> drive b \<noteq> drive a \<and> lower (drive b) \<noteq> lower (drive a) then b
      else PathD (if drive b \<noteq> [] then drive b else drive a) (is_abs a) (parts a @ parts b))"

definition os_path_dirname :: "path \<Rightarrow> path" where
  "os_path_dirname p = PathD (drive p) (is_abs p) (butlast (parts p))"

text \<open>\<^verbatim>\<open>os.path.basename\<close> is a name, the empty string when there is no component.\<close>

definition os_path_basename :: "path \<Rightarrow> string" where
  "os_path_basename p = (if parts p = [] then [] else last (parts p))"

text \<open>\<^verbatim>\<open>os.path.isabs\<close>: the path has a root.\<close>

definition os_path_isabs :: "path \<Rightarrow> bool" where
  "os_path_isabs p = is_abs p"

text \<open>
  \<^verbatim>\<open>os.path.normpath\<close>: the loop over the components, with \<open>new_comps\<close> as the
  accumulator; a path without drive and root that normalises to nothing is \<^verbatim>\<open>'.'\<close>.
\<close>

fun norm_comps :: "bool \<Rightarrow> string list \<Rightarrow> string list \<Rightarrow> string list" where
  "norm_comps initial_slashes new_comps [] = new_comps"
| "norm_comps initial_slashes new_comps (cmp # comps) =
     (if cmp = [] \<or> cmp = ''.'' then norm_comps initial_slashes new_comps comps
      else if cmp \<noteq> ''..'' \<or> (\<not> initial_slashes \<and> new_comps = [])
                \<or> (new_comps \<noteq> [] \<and> last new_comps = ''..'')
      then norm_comps initial_slashes (new_comps @ [cmp]) comps
      else if new_comps \<noteq> [] then norm_comps initial_slashes (butlast new_comps) comps
      else norm_comps initial_slashes new_comps comps)"

definition os_path_normpath :: "path \<Rightarrow> path" where
  "os_path_normpath p =
     (let comps = norm_comps (is_abs p) [] (parts p)
      in if drive p = [] \<and> \<not> is_abs p \<and> comps = [] then Path False [''.'']
         else PathD (drive p) (is_abs p) comps)"

text \<open>
  \<^verbatim>\<open>os.path.relpath(path, start)\<close> for absolute arguments on one drive, which is what
  the launcher passes (\<^verbatim>\<open>get_base_dir\<close> returns an absolute path and every game is
  joined below it): \<^verbatim>\<open>abspath\<close> is then \<^verbatim>\<open>normpath\<close>. The common prefix is
  found by comparing components, on Windows without regard to case (\<^verbatim>\<open>normcase\<close>).
\<close>

definition normcase :: "platform \<Rightarrow> string \<Rightarrow> string" where
  "normcase os s = (case os of Posix \<Rightarrow> s | Windows \<Rightarrow> lower s)"

definition common_len :: "platform \<Rightarrow> string list \<Rightarrow> string list \<Rightarrow> nat" where
  "common_len os xs ys = length (takeWhile (\<lambda>(x, y). normcase os x = normcase os y) (zip xs ys))"

definition os_path_relpath :: "platform \<Rightarrow> path \<Rightarrow> path \<Rightarrow> path" where
  "os_path_relpath os p start =
     (let start_list = parts (os_path_normpath start);
          path_list = parts (os_path_normpath p);
          i = common_len os start_list path_list;
          rel_list = replicate (length start_list - i) ''..'' @ drop i path_list
      in if rel_list = [] then Path False [''.''] else Path False rel_list)"

text \<open>A path whose text is the empty string.\<close>

definition empty_text :: "path \<Rightarrow> bool" where
  "empty_text p = (drive p = [] \<and> \<not> is_abs p \<and> (parts p = [] \<or> parts p = [[]]))"

section \<open>The file tree and the operating system\<close>

text \<open>
  A directory lists its entries in the order in which the operating system enumerates
  them; a file has a content. The world holds the tree below the root, the working
  directory, the platform, the depth to which the interpreter lets a function call
  itself, the paths on which the operating system refuses an operation (permissions,
  locks: \<open>io_fault\<close>), the executables it refuses to start (\<open>exec_fault\<close>), and the log
  of the processes started so far, each with its argument vector and working directory.
  On Windows the entries of the root are the drives, each under the lower-case text of
  its drive, and the working directory starts with its drive; the working directory of
  every other drive is its root. A path is looked up component by component, names
  being matched as they are spelled. The components \<^verbatim>\<open>.\<close> and \<^verbatim>\<open>..\<close> are not
  resolved by the tree (no entry has such a name), and links are not modelled.
\<close>

datatype node = File string | Dir "(string \<times> node) list"

record world =
  root :: node
  cwd :: "string list"
  platform :: platform
  recursion_limit :: nat
  io_fault :: "string list \<Rightarrow> bool"
  exec_fault :: "string list \<Rightarrow> bool"
  spawned :: "(path list \<times> path) list"

fun is_dir :: "node \<Rightarrow> bool" where
  "is_dir (Dir es) = True"
| "is_dir (File c) = False"

fun lookup :: "node \<Rightarrow> string list \<Rightarrow> node option"
  and lookup_in :: "(string \<times> node) list \<Rightarrow> string \<Rightarrow> string list \<Rightarrow> node option" where
  "lookup n [] = Some n"
| "lookup (File c) (x # xs) = None"
| "lookup (Dir es) (x # xs) = lookup_in es x xs"
| "lookup_in [] x xs = None"
| "lookup_in ((n, t) # es) x xs = (if n = x then lookup t xs else lookup_in es x xs)"

definition resolve :: "world \<Rightarrow> path \<Rightarrow> string list" where
  "resolve w p =
     (case platform w of
        Posix \<Rightarrow> (if is_abs p then parts p else cwd w @ parts p)
      | Windows \<Rightarrow>
          (let d = (if drive p = [] then take 1 (cwd w) else [lower (drive p)])
           in if is_abs p \<or> d \<noteq> take 1 (cwd w) then d @ parts p else cwd w @ parts p))"

definition os_path_exists :: "world \<Rightarrow> path \<Rightarrow> bool" where
  "os_path_exists w p = (lookup (root w) (resolve w p) \<noteq> None)"

text \<open>
  \<^verbatim>\<open>os.walk(top)\<close>, top-down: one triple (directory, names of its subdirectories,
  names of its other entries) for the directory walked and then the triples of each
  subdirectory, the directory of each being \<^verbatim>\<open>os.path.join\<close> of its parent's and
  its name. Errors of the enumeration are ignored (\<^verbatim>\<open>onerror=None\<close>): walking what
  is not a directory yields nothing, and so does a directory that the system refuses to
  list, which still counts among the subdirectories of its parent. The second argument
  is the place of the directory in the tree.
\<close>

fun walk_node :: "(string list \<Rightarrow> bool) \<Rightarrow> string list \<Rightarrow> path \<Rightarrow> node
                    \<Rightarrow> (path \<times> string list \<times> string list) list" where
  "walk_node refused q d (File c) = []"
| "walk_node refused q d (Dir es) =
     (if refused q then []
      else (d, map fst (filter (\<lambda>e. is_dir (snd e)) es), map fst (filter (\<lambda>e. \<not> is_dir (snd e)) es))
           # concat (map (\<lambda>e. walk_node refused (q @ [fst e]) (os_path_join d (Path False [fst e])) (snd e))
                         es))"

definition os_walk :: "world \<Rightarrow> path \<Rightarrow> (path \<times> string list \<times> string list) list" where
  "os_walk w d =
     (case lookup (root w) (resolve w d) of
        None \<Rightarrow> []
      | Some n \<Rightarrow> walk_node (io_fault w) (resolve w d) d n)"

definition os_path_isfile :: "world \<Rightarrow> path \<Rightarrow> bool" where
  "os_path_isfile w p = (case lookup (root w) (resolve w p) of Some (File c) \<Rightarrow> True | _ \<Rightarrow> False)"

definition os_path_isdir :: "world \<Rightarrow> path \<Rightarrow> bool" where
  "os_path_isdir w p = (case lookup (root w) (resolve w p) of Some (Dir es) \<Rightarrow> True | _ \<Rightarrow> False)"

text \<open>
  The content of the file at a sequence of components of the tree, if there is a file.
\<close>

definition file_at :: "node \<Rightarrow> string list \<Rightarrow> string option" where
  "file_at n q = (case lookup n q of Some (File c) \<Rightarrow> Some c | _ \<Rightarrow> None)"

definition dir_at :: "node \<Rightarrow> string list \<Rightarrow> bool" where
  "dir_at n q = (case lookup n q of Some (Dir es) \<Rightarrow> True | _ \<Rightarrow> False)"

text \<open>On Windows, a place on a drive that the system does not have: nothing can be created there.\<close>

definition off_volume :: "world \<Rightarrow> string list \<Rightarrow> bool" where
  "off_volume w q = (platform w = Windows \<and> \<not> dir_at (root w) (take 1 q))"

subsection \<open>Changing the tree\<close>

text \<open>
  \<open>alter f q n\<close> replaces what is at \<open>q\<close> in \<open>n\<close> by \<open>f\<close> of it, where \<open>None\<close>
  stands for no entry; a new entry is listed last in its directory. Nothing changes
  when a component before the last is missing or is a file.
\<close>

fun alter :: "(node option \<Rightarrow> node option) \<Rightarrow> string list \<Rightarrow> node \<Rightarrow> node"
  and alter_in :: "(node option \<Rightarrow> node option) \<Rightarrow> string \<Rightarrow> string list
                     \<Rightarrow> (string \<times> node) list \<Rightarrow> (string \<times> node) list" where
  "alter f [] n = n"
| "alter f (x # xs) (File c) = File c"
| "alter f (x # xs) (Dir es) = Dir (alter_in f x xs es)"
| "alter_in f x xs [] =
     (if xs = [] then (case f None of None \<Rightarrow> [] | Some t' \<Rightarrow> [(x, t')]) else [])"
| "alter_in f x xs ((n, t) # es) =
     (if n = x
      then (if xs = [] then (case f (Some t) of None \<Rightarrow> es | Some t' \<Rightarrow> (n, t') # es)
            else (n, alter f xs t) # es)
      else (n, t) # alter_in f x xs es)"

text \<open>The chain of new directories \<open>x/y/z\<close> that \<^verbatim>\<open>os.makedirs\<close> creates.\<close>

fun fresh_dirs :: "string list \<Rightarrow> node" where
  "fresh_dirs [] = Dir []"
| "fresh_dirs (x # xs) = Dir [(x, fresh_dirs xs)]"

text \<open>
  \<^verbatim>\<open>os.makedirs(q, exist_ok=True)\<close> on the tree: existing directories are kept, the
  missing ones are created, a file in the way raises.
\<close>

fun mkdirs :: "string list \<Rightarrow> node \<Rightarrow> exn + node"
  and mkdirs_in :: "string \<Rightarrow> string list \<Rightarrow> (string \<times> node) list \<Rightarrow> exn + (string \<times> node) list" where
  "mkdirs [] (Dir es) = Inr (Dir es)"
| "mkdirs [] (File c) = Inl FileExistsError"
| "mkdirs (x # xs) (File c) = Inl NotADirectoryError"
| "mkdirs (x # xs) (Dir es) =
     (case mkdirs_in x xs es of Inl e \<Rightarrow> Inl e | Inr es' \<Rightarrow> Inr (Dir es'))"
| "mkdirs_in x xs [] = Inr [(x, fresh_dirs xs)]"
| "mkdirs_in x xs ((n, t) # es) =
     (if n = x
      then (case mkdirs xs t of Inl e \<Rightarrow> Inl e | Inr t' \<Rightarrow> Inr ((n, t') # es))
      else (case mkdirs_in x xs es of Inl e \<Rightarrow> Inl e | Inr es' \<Rightarrow> Inr ((n, t) # es')))"

subsection \<open>Operating system calls\<close>

text \<open>
  A call that may raise returns the exception, if any, and the world it leaves. All of
  them except \<^verbatim>\<open>copytree\<close> leave the world as it was when they raise.
\<close>

definition os_remove :: "world \<Rightarrow> path \<Rightarrow> exn option \<times> world" where
  "os_remove w p =
     (let q = resolve w p in
      if io_fault w q then (Some PermissionError, w)
      else (case lookup (root w) q of
              None \<Rightarrow> (Some FileNotFoundError, w)
            | Some (Dir es) \<Rightarrow> (Some IsADirectoryError, w)
            | Some (File c) \<Rightarrow>
                if q = [] then (Some PermissionError, w)
                else (None, w\<lparr>root := alter (\<lambda>t. None) q (root w)\<rparr>)))"

text \<open>
  \<^verbatim>\<open>os.rename(src, dst)\<close>. What is at an existing target decides: on Windows the
  call raises; on POSIX a file replaces a file and a directory replaces an empty
  directory, and the other combinations raise.
\<close>

definition rename_onto :: "platform \<Rightarrow> node \<Rightarrow> node option \<Rightarrow> exn option" where
  "rename_onto os n target =
     (case target of
        None \<Rightarrow> None
      | Some t \<Rightarrow>
          (case os of
             Windows \<Rightarrow> Some FileExistsError
           | Posix \<Rightarrow>
               (case (n, t) of
                  (File c, File c') \<Rightarrow> None
                | (File c, Dir es) \<Rightarrow> Some IsADirectoryError
                | (Dir ss, File c') \<Rightarrow> Some NotADirectoryError
                | (Dir ss, Dir es) \<Rightarrow> if es = [] then None else Some OSError)))"

definition os_rename :: "world \<Rightarrow> path \<Rightarrow> path \<Rightarrow> exn option \<times> world" where
  "os_rename w src dst =
     (let s = resolve w src; d = resolve w dst in
      if io_fault w s \<or> io_fault w d then (Some PermissionError, w)
      else (case lookup (root w) s of
              None \<Rightarrow> (Some FileNotFoundError, w)
            | Some n \<Rightarrow>
                if s = d then (None, w)
                else if s = [] \<or> d = [] then (Some PermissionError, w)
                else if off_volume w d then (Some FileNotFoundError, w)
                else if prefix s d then (Some OSError, w)
                else if \<not> dir_at (root w) (butlast d) then (Some FileNotFoundError, w)
                else (case rename_onto (platform w) n (lookup (root w) d) of
                        Some e \<Rightarrow> (Some e, w)
                      | None \<Rightarrow>
                          (None, w\<lparr>root := alter (\<lambda>t. Some n) d (alter (\<lambda>t. None) s (root w))\<rparr>))))"

text \<open>
  \<^verbatim>\<open>os.makedirs(q, exist_ok=b)\<close> at a place of the tree, and \<^verbatim>\<open>os.makedirs(p,
  exist_ok=True)\<close> for a path, which raises at once for the empty text.
\<close>

definition makedirs_at :: "world \<Rightarrow> string list \<Rightarrow> bool \<Rightarrow> exn option \<times> world" where
  "makedirs_at w q exist_ok =
     (if io_fault w q then (Some PermissionError, w)
      else if off_volume w q then (Some FileNotFoundError, w)
      else if \<not> exist_ok \<and> lookup (root w) q \<noteq> None then (Some FileExistsError, w)
      else (case mkdirs q (root w) of
              Inl e \<Rightarrow> (Some e, w)
            | Inr r \<Rightarrow> (None, w\<lparr>root := r\<rparr>)))"

definition os_makedirs :: "world \<Rightarrow> path \<Rightarrow> exn option \<times> world" where
  "os_makedirs w p =
     (if empty_text p then (Some FileNotFoundError, w) else makedirs_at w (resolve w p) True)"

text \<open>
  \<^verbatim>\<open>shutil.copy2(src, dst)\<close> at places of the tree, with the basename of \<open>src\<close>: when
  \<open>dst\<close> is a directory the file goes into it under that basename; copying a file
  onto itself raises; then the source is opened, then the destination.
\<close>

definition copy2_at :: "world \<Rightarrow> string list \<Rightarrow> string list \<Rightarrow> string \<Rightarrow> exn option \<times> world" where
  "copy2_at w s d0 base_name =
     (let d = (if dir_at (root w) d0 then d0 @ [base_name] else d0) in
      if lookup (root w) s \<noteq> None \<and> d = s then (Some SameFileError, w)
      else if io_fault w s then (Some PermissionError, w)
      else (case lookup (root w) s of
              None \<Rightarrow> (Some FileNotFoundError, w)
            | Some (Dir es) \<Rightarrow> (Some IsADirectoryError, w)
            | Some (File c) \<Rightarrow>
                if io_fault w d then (Some PermissionError, w)
                else if dir_at (root w) d then (Some IsADirectoryError, w)
                else if d = [] \<or> off_volume w d \<or> \<not> dir_at (root w) (butlast d)
                then (Some FileNotFoundError, w)
                else (None, w\<lparr>root := alter (\<lambda>t. Some (File c)) d (root w)\<rparr>)))"

definition shutil_copy2 :: "world \<Rightarrow> path \<Rightarrow> path \<Rightarrow> exn option \<times> world" where
  "shutil_copy2 w src dst = copy2_at w (resolve w src) (resolve w dst) (os_path_basename src)"

text \<open>
  The loop of \<^verbatim>\<open>shutil.copytree\<close> over the entries that it listed in the source,
  each with its name and whether it is a directory. A directory is copied by
  \<open>descend\<close>, the recursive call, a file by \<^verbatim>\<open>copy2\<close>, both reading the world as it
  is at that moment. The loop goes on after an entry that failed and remembers that one
  did (the Boolean); only an exception that is no \<^verbatim>\<open>OSError\<close> ends it at once.
\<close>

fun copy_entries :: "(string list \<Rightarrow> string list \<Rightarrow> world \<Rightarrow> exn option \<times> world)
                       \<Rightarrow> string list \<Rightarrow> string list \<Rightarrow> (string \<times> bool) list \<Rightarrow> world
                       \<Rightarrow> exn option \<times> bool \<times> world" where
  "copy_entries descend s d [] w = (None, False, w)"
| "copy_entries descend s d ((n, isd) # es) w =
     (case (if isd then descend (s @ [n]) (d @ [n]) w else copy2_at w (s @ [n]) (d @ [n]) n) of
        (None, w1) \<Rightarrow> copy_entries descend s d es w1
      | (Some e, w1) \<Rightarrow>
          if e = RecursionError then (Some e, True, w1)
          else (case copy_entries descend s d es w1 of (x, err, w2) \<Rightarrow> (x, True, w2)))"

text \<open>
  \<^verbatim>\<open>shutil.copytree(src, dst, dirs_exist_ok=b)\<close> at places of the tree: list the
  source, make the destination, copy the entries, and raise at the end when one of them
  failed. The first argument is the number of nested calls that the interpreter still
  allows: at none, \<^verbatim>\<open>RecursionError\<close> is raised. Source and destination may lie
  inside one another; what is then copied depends on the order of the entries.
\<close>

primrec copytree_at :: "nat \<Rightarrow> bool \<Rightarrow> string list \<Rightarrow> string list \<Rightarrow> world \<Rightarrow> exn option \<times> world" where
  "copytree_at 0 exist_ok s d w = (Some RecursionError, w)"
| "copytree_at (Suc k) exist_ok s d w =
     (if io_fault w s then (Some PermissionError, w)
      else (case lookup (root w) s of
              None \<Rightarrow> (Some FileNotFoundError, w)
            | Some (File c) \<Rightarrow> (Some NotADirectoryError, w)
            | Some (Dir ss) \<Rightarrow>
                (case makedirs_at w d exist_ok of
                   (Some e, w1) \<Rightarrow> (Some e, w1)
                 | (None, w1) \<Rightarrow>
                     (case copy_entries (copytree_at k exist_ok) s d
                             (map (\<lambda>e. (fst e, is_dir (snd e))) ss) w1 of
                        (Some e, err, w2) \<Rightarrow> (Some e, w2)
                      | (None, err, w2) \<Rightarrow> (if err then Some ShutilError else None, w2)))))"

definition shutil_copytree :: "world \<Rightarrow> path \<Rightarrow> path \<Rightarrow> bool \<Rightarrow> exn option \<times> world" where
  "shutil_copytree w src dst dirs_exist_ok =
     copytree_at (recursion_limit w) dirs_exist_ok (resolve w src) (resolve w dst) w"

text \<open>
  \<^verbatim>\<open>subprocess.Popen(argv, cwd=dir)\<close>: the executable must be a file that the system
  agrees to start and the working directory must exist; the process is then logged.
\<close>

definition subprocess_Popen :: "world \<Rightarrow> path list \<Rightarrow> path \<Rightarrow> exn option \<times> world" where
  "subprocess_Popen w argv dir =
     (case argv of
        [] \<Rightarrow> (Some IndexError, w)
      | exe # args \<Rightarrow>
          if \<not> os_path_isfile w exe then (Some FileNotFoundError, w)
          else if exec_fault w (resolve w exe) then (Some OSError, w)
          else if \<not> os_path_isdir w dir then (Some NotADirectoryError, w)
          else (None, w\<lparr>spawned := spawned w @ [(argv, dir)]\<rparr>))"

subsection \<open>\<^verbatim>\<open>safe_copy_file\<close> and \<^verbatim>\<open>safe_copy_folder\<close>\<close>

definition safe_copy_file :: "world \<Rightarrow> path \<Rightarrow> path \<Rightarrow> exn option \<times> world" where
  "safe_copy_file w src dst =
     (case os_makedirs w (os_path_dirname dst) of
        (Some e, w1) \<Rightarrow> (Some e, w1)
      | (None, w1) \<Rightarrow> shutil_copy2 w1 src dst)"

definition safe_copy_folder :: "world \<Rightarrow> path \<Rightarrow> path \<Rightarrow> exn option \<times> world" where
  "safe_copy_folder w src dst =
     (if os_path_exists w dst then shutil_copytree w src dst True
      else shutil_copytree w src dst False)"

section \<open>The launcher\<close>

text \<open>
  The fields of \<^verbatim>\<open>FlowlabLauncher\<close> that the handlers read or write. A listbox is
  the list of its rows and its current selection (\<^verbatim>\<open>curselection()\<close>, a tuple of
  row indices). Modal messages are an effect: the state logs them in the order shown.
  \<open>after_queue\<close> holds the callbacks registered with \<^verbatim>\<open>self.after\<close> and not yet
  run, each with its delay in milliseconds.
\<close>

datatype dialog = ShowError string string | ShowWarning string string

datatype callback = PollModderStatus

record launcher =
  base_dir :: path
  games_dir :: path
  games :: "path list"
  games_listbox :: "string list"
  games_sel :: "nat list"
  modded_listbox :: "string list"
  modded_sel :: "nat list"
  modder_status_label :: string
  dialogs :: "dialog list"
  after_queue :: "(nat \<times> callback) list"

definition showerror :: "string \<Rightarrow> string \<Rightarrow> launcher \<Rightarrow> launcher" where
  "showerror title msg st = st\<lparr>dialogs := dialogs st @ [ShowError title msg]\<rparr>"

definition showwarning :: "string \<Rightarrow> string \<Rightarrow> launcher \<Rightarrow> launcher" where
  "showwarning title msg st = st\<lparr>dialogs := dialogs st @ [ShowWarning title msg]\<rparr>"

text \<open>
  The text of an exception in a message (\<^verbatim>\<open>f"...{e}"\<close>), for which the name of its
  class stands: the wording that the platform gives to an error is not modelled.
\<close>

fun exn_text :: "exn \<Rightarrow> string" where
  "exn_text ImportError = ''ImportError''"
| "exn_text PsutilError = ''psutil.Error''"
| "exn_text FileNotFoundError = ''FileNotFoundError''"
| "exn_text FileExistsError = ''FileExistsError''"
| "exn_text IsADirectoryError = ''IsADirectoryError''"
| "exn_text NotADirectoryError = ''NotADirectoryError''"
| "exn_text PermissionError = ''PermissionError''"
| "exn_text SameFileError = ''SameFileError''"
| "exn_text ShutilError = ''shutil.Error''"
| "exn_text CalledProcessError = ''CalledProcessError''"
| "exn_text IndexError = ''IndexError''"
| "exn_text RecursionError = ''RecursionError''"
| "exn_text OSError = ''OSError''"

definition nl :: string where
  "nl = [CHR 0x0A]"

subsection \<open>\<^verbatim>\<open>scan_games\<close>\<close>

text \<open>
  The inner loop \<^verbatim>\<open>for fname in files\<close> and the outer loop over the triples of
  \<^verbatim>\<open>os.walk\<close>; the accumulator is \<^verbatim>\<open>self.games\<close>, to which the loop appends.
\<close>

fun scan_files :: "path \<Rightarrow> string list \<Rightarrow> path list \<Rightarrow> path list" where
  "scan_files d [] gs = gs"
| "scan_files d (fname # files) gs =
     scan_files d files
       (if endswith (lower fname) MODDED_EXT then gs @ [os_path_join d (Path False [fname])]
        else gs)"

fun scan_walk :: "(path \<times> string list \<times> string list) list \<Rightarrow> path list \<Rightarrow> path list" where
  "scan_walk [] gs = gs"
| "scan_walk ((d, dirs, files) # rest) gs = scan_walk rest (scan_files d files gs)"

text \<open>The sort key \<^verbatim>\<open>os.path.relpath(p, self.base_dir).lower()\<close> and the display form.\<close>

definition display :: "platform \<Rightarrow> launcher \<Rightarrow> path \<Rightarrow> string" where
  "display os st = (\<lambda>p. render os (os_path_relpath os p (base_dir st)))"

definition sort_keyfn :: "platform \<Rightarrow> launcher \<Rightarrow> path \<Rightarrow> string" where
  "sort_keyfn os st = (\<lambda>p. lower (render os (os_path_relpath os p (base_dir st))))"

definition placeholder :: string where
  "placeholder = ''(No games found in games/)''"

text \<open>
  The loop \<^verbatim>\<open>for p in self.games\<close> that inserts one row at the end of each listbox;
  the pair is (rows of \<^verbatim>\<open>games_listbox\<close>, rows of \<^verbatim>\<open>modded_listbox\<close>).
\<close>

fun insert_rows :: "platform \<Rightarrow> launcher \<Rightarrow> path list \<Rightarrow> string list \<times> string list
                     \<Rightarrow> string list \<times> string list" where
  "insert_rows os st [] lbs = lbs"
| "insert_rows os st (p # ps) (glb, mlb) =
     insert_rows os st ps (glb @ [display os st p], mlb @ [display os st p])"

text \<open>
  \<^verbatim>\<open>scan_games\<close>: clear the list and delete every row of both listboxes (which
  leaves nothing selected), walk, sort (Python's sort is stable, as \<open>sort_key\<close> is),
  fill the listboxes.
\<close>

definition scan_games :: "launcher \<Rightarrow> world \<Rightarrow> launcher" where
  "scan_games st w =
     (let st1 = st\<lparr>games := [], games_listbox := [], games_sel := [],
                    modded_listbox := [], modded_sel := []\<rparr>;
          st2 = st1\<lparr>games := scan_walk (os_walk w (games_dir st1)) (games st1)\<rparr>;
          st3 = st2\<lparr>games := sort_key (sort_keyfn (platform w) st2) (games st2)\<rparr>
      in if games st3 = [] then st3\<lparr>games_listbox := games_listbox st3 @ [placeholder]\<rparr>
         else (case insert_rows (platform w) st3 (games st3) (games_listbox st3, modded_listbox st3) of
                 (glb, mlb) \<Rightarrow> st3\<lparr>games_listbox := glb, modded_listbox := mlb\<rparr>))"

section \<open>Well-formed trees and a running example\<close>

text \<open>No directory has two entries of the same name.\<close>

fun wf_node :: "node \<Rightarrow> bool" where
  "wf_node (File c) = True"
| "wf_node (Dir es) = (distinct (map fst es) \<and> (\<forall>e \<in> set es. wf_node (snd e)))"

text \<open>
  An installation in \<^verbatim>\<open>/app\<close> with the modder, two games (one in a subfolder, with
  upper-case letters in the names), a text file and a directory whose name ends with
  \<^verbatim>\<open>.exe\<close>; and a folder of downloads outside of it, with a folder that has the
  name of the subfolder of the games.
\<close>

definition example_tree :: node where
  "example_tree =
     Dir [(''app'',
            Dir [(''games'',
                   Dir [(''b.EXE'', File ''game b''),
                        (''Sub'', Dir [(''A.exe'', File ''game a''), (''notes.txt'', File ''text'')]),
                        (''dir.exe'', Dir [])]),
                 (''FlowlabModdingUtility.exe'', File ''modder'')]),
          (''downloads'',
            Dir [(''new.exe'', File ''game new''),
                 (''b.EXE'', File ''game b2''),
                 (''pack'', Dir [(''c.exe'', File ''game c''), (''data'', Dir [(''d.bin'', File ''data d'')])]),
                 (''Sub'', Dir [(''A.exe'', File ''game a2''), (''extra.exe'', File ''game x'')])])]"

definition example_world :: world where
  "example_world =
     \<lparr>root = example_tree, cwd = [''app''], platform = Posix, recursion_limit = 1000,
      io_fault = (\<lambda>q. False), exec_fault = (\<lambda>q. False), spawned = []\<rparr>"

text \<open>
  An installation whose games sort differently with the slash and with the backslash,
  two of them with an accented letter in the name (U+00C9 and U+00E8); once on POSIX
  in \<^verbatim>\<open>/app\<close>, once on Windows on drive \<^verbatim>\<open>C:\<close>.
\<close>

definition order_tree :: node where
  "order_tree =
     Dir [(''app'',
            Dir [(''games'',
                   Dir [(''sub1.exe'', File ''game 1''),
                        (''sub'', Dir [(''x.exe'', File ''game x'')]),
                        (CHR 0xC9 # ''.exe'', File ''game E''),
                        (CHR 0xE8 # ''.exe'', File ''game e'')])])]"

definition posix_world :: world where
  "posix_world =
     \<lparr>root = order_tree, cwd = [''app''], platform = Posix, recursion_limit = 1000,
      io_fault = (\<lambda>q. False), exec_fault = (\<lambda>q. False), spawned = []\<rparr>"

definition windows_world :: world where
  "windows_world =
     \<lparr>root = Dir [(''c:'', order_tree)], cwd = [''c:'', ''app''], platform = Windows,
      recursion_limit = 1000, io_fault = (\<lambda>q. False), exec_fault = (\<lambda>q. False), spawned = []\<rparr>"

text \<open>A launcher state before any scan, with stale rows and a stale selection.\<close>

definition example_launcher :: launcher where
  "example_launcher =
     \<lparr>base_dir = Path True [''app''], games_dir = Path True [''app'', ''games''],
      games = [Path True [''app'', ''games'', ''gone.exe'']],
      games_listbox = [''games/gone.exe''], games_sel = [0],
      modded_listbox = [''games/gone.exe''], modded_sel = [0],
      modder_status_label = ''Modder status: unknown'', dialogs = [], after_queue = []\<rparr>"

text \<open>The launcher of the installation on Windows, before any scan.\<close>

definition windows_launcher :: launcher where
  "windows_launcher =
     \<lparr>base_dir = PathD ''C:'' True [''app''], games_dir = PathD ''C:'' True [''app'', ''games''],
      games = [], games_listbox = [], games_sel = [], modded_listbox = [], modded_sel = [],
      modder_status_label = ''Modder status: unknown'', dialogs = [], after_queue = []\<rparr>"

section \<open>The handlers\<close>

text \<open>
  A handler maps the launcher state and the world to the exception it lets escape, if
  any, and the state and world it leaves. What the user answers in a dialog is an
  argument of the handler. \<^verbatim>\<open>try: body except Exception as e: handler\<close> over
  state and world is \<open>try_catch\<close>: the handler runs in the state and world in which the
  body raised.
\<close>

type_synonym outcome = "exn option \<times> launcher \<times> world"

definition try_catch :: "outcome \<Rightarrow> (exn \<Rightarrow> launcher \<Rightarrow> world \<Rightarrow> outcome) \<Rightarrow> outcome" where
  "try_catch body handler =
     (case body of (None, st, w) \<Rightarrow> (None, st, w) | (Some e, st, w) \<Rightarrow> handler e st w)"

text \<open>\<^verbatim>\<open>lb.get(i)\<close>: Tk gives the empty string for an index that is no row.\<close>

definition lb_get :: "string list \<Rightarrow> nat \<Rightarrow> string" where
  "lb_get rows i = (if i < length rows then rows ! i else [])"

text \<open>
  \<^verbatim>\<open>os.path.basename\<close> of a text: what follows its last separator, on Windows in
  what follows the drive.
\<close>

definition basename_text :: "platform \<Rightarrow> string \<Rightarrow> string" where
  "basename_text os s =
     (case os of
        Posix \<Rightarrow> last (split_where (is_sep Posix) s)
      | Windows \<Rightarrow> last (split_where (is_sep Windows) (snd (snd (nt_splitroot s)))))"

text \<open>A name as a relative path; \<^verbatim>\<open>os.path.join(d, '')\<close> is \<open>d\<close>.\<close>

definition path_of_name :: "string \<Rightarrow> path" where
  "path_of_name n = Path False (if n = [] then [] else [n])"

text \<open>Python's \<^verbatim>\<open>not full\<close> for a value that is \<^verbatim>\<open>None\<close> or a path string.\<close>

definition falsy :: "path option \<Rightarrow> bool" where
  "falsy full = (case full of None \<Rightarrow> True | Some p \<Rightarrow> empty_text p)"

subsection \<open>Upload\<close>

text \<open>The loop \<^verbatim>\<open>for src in files\<close> of \<^verbatim>\<open>upload_files\<close>, with its try block.\<close>

fun upload_loop :: "launcher \<Rightarrow> world \<Rightarrow> string list \<Rightarrow> outcome" where
  "upload_loop st w [] = (None, st, w)"
| "upload_loop st w (src # files) =
     (case try_catch
             (let dst = os_path_join (games_dir st) (path_of_name (basename_text (platform w) src))
              in case safe_copy_file w (path_of_text (platform w) src) dst of (e, w') \<Rightarrow> (e, st, w'))
             (\<lambda>e st w. (None, showerror ''Upload error''
                                  (''Failed to copy '' @ src @ '':'' @ nl @ exn_text e) st, w)) of
        (Some e, st', w') \<Rightarrow> (Some e, st', w')
      | (None, st', w') \<Rightarrow> upload_loop st' w' files)"

definition upload_files :: "launcher \<Rightarrow> world \<Rightarrow> string list \<Rightarrow> outcome" where
  "upload_files st w files =
     (if files = [] then (None, st, w)
      else (case upload_loop st w files of
              (Some e, st', w') \<Rightarrow> (Some e, st', w')
            | (None, st', w') \<Rightarrow> (None, scan_games st' w', w')))"

definition upload_folder :: "launcher \<Rightarrow> world \<Rightarrow> string \<Rightarrow> outcome" where
  "upload_folder st w src =
     (if src = [] then (None, st, w)
      else (case try_catch
                   (let base_name = os_path_basename (os_path_normpath (path_of_text (platform w) src));
                        dst = os_path_join (games_dir st) (path_of_name base_name)
                    in case safe_copy_folder w (path_of_text (platform w) src) dst of
                         (e, w') \<Rightarrow> (e, st, w'))
                   (\<lambda>e st w. (None, showerror ''Upload error''
                                        (''Failed to copy folder:'' @ nl @ exn_text e) st, w)) of
              (Some e, st', w') \<Rightarrow> (Some e, st', w')
            | (None, st', w') \<Rightarrow> (None, scan_games st' w', w')))"

subsection \<open>Modder\<close>

definition modder_path :: "launcher \<Rightarrow> path" where
  "modder_path st = os_path_join (base_dir st) (path_of_name MODDER_EXE)"

definition update_modder_label :: "bool \<Rightarrow> launcher \<Rightarrow> launcher" where
  "update_modder_label running st =
     st\<lparr>modder_status_label := ''Modder status: '' @ (if running then ''running'' else ''not running'')\<rparr>"

text \<open>
  \<^verbatim>\<open>_poll_modder_status\<close>; \<^verbatim>\<open>self.after(ms, f)\<close> puts the callback into the queue of
  the event loop.
\<close>

definition poll_modder_status :: "launcher \<Rightarrow> proc_env \<Rightarrow> exn option \<times> launcher" where
  "poll_modder_status st env =
     (case is_process_running env MODDER_EXE of
        Inl e \<Rightarrow> (Some e, st)
      | Inr running \<Rightarrow>
          (let st1 = update_modder_label running st
           in (None, st1\<lparr>after_queue := after_queue st1 @ [(STATUS_POLL_MS, PollModderStatus)]\<rparr>)))"

definition launch_modder :: "launcher \<Rightarrow> world \<Rightarrow> outcome" where
  "launch_modder st w =
     (let modder = modder_path st in
      if \<not> os_path_exists w modder
      then (None, showerror ''Launch error''
                    (MODDER_EXE @ '' not found in launcher folder:'' @ nl @ render (platform w) modder)
                    st, w)
      else try_catch
             (case subprocess_Popen w [modder] (base_dir st) of
                (Some e, w') \<Rightarrow> (Some e, st, w')
              | (None, w') \<Rightarrow> (None, update_modder_label True st, w'))
             (\<lambda>e st w. (None, showerror ''Launch error''
                                  (''Failed to launch modder:'' @ nl @ exn_text e) st, w)))"

subsection \<open>Play, delete, rename\<close>

text \<open>\<^verbatim>\<open>xs[i]\<close> raises \<^verbatim>\<open>IndexError\<close> out of range.\<close>

definition py_index :: "'a list \<Rightarrow> nat \<Rightarrow> exn + 'a" where
  "py_index xs i = (if i < length xs then Inr (xs ! i) else Inl IndexError)"

definition get_selected_game :: "launcher \<Rightarrow> bool \<Rightarrow> exn + path option" where
  "get_selected_game st from_modded =
     (let sel = (if from_modded then modded_sel st else games_sel st) in
      if sel = [] then Inr None
      else (case py_index sel 0 of
              Inl e \<Rightarrow> Inl e
            | Inr idx \<Rightarrow>
                if idx \<ge> length (games st) then Inr None
                else (case py_index (games st) idx of Inl e \<Rightarrow> Inl e | Inr p \<Rightarrow> Inr (Some p))))"

text \<open>
  The list comprehension \<^verbatim>\<open>matches\<close> of the three handlers, and \<^verbatim>\<open>matches[0] if
  matches else None\<close>.
\<close>

definition matches :: "platform \<Rightarrow> launcher \<Rightarrow> string \<Rightarrow> path list" where
  "matches os st display_row =
     filter (\<lambda>p. render os (os_path_relpath os p (base_dir st)) = display_row
                 \<or> os_path_basename p = basename_text os display_row) (games st)"

definition first_match :: "platform \<Rightarrow> launcher \<Rightarrow> string \<Rightarrow> path option" where
  "first_match os st display_row =
     (case matches os st display_row of [] \<Rightarrow> None | p # ps \<Rightarrow> Some p)"

text \<open>How \<^verbatim>\<open>play_selected_game(from_modded=True)\<close> and \<^verbatim>\<open>delete_selected_game\<close>
  turn the selected row into a path.\<close>

definition resolve_row :: "launcher \<Rightarrow> world \<Rightarrow> string \<Rightarrow> path option" where
  "resolve_row st w display_row =
     (let d = path_of_text (platform w) display_row;
          full = (if \<not> os_path_isabs d then os_path_join (base_dir st) d else d)
      in if \<not> os_path_exists w full then first_match (platform w) st display_row else Some full)"

definition play_selected_game :: "launcher \<Rightarrow> world \<Rightarrow> bool \<Rightarrow> outcome" where
  "play_selected_game st w from_modded =
     (case (if from_modded
            then (if modded_sel st = [] then Inl (None, showwarning ''Play'' ''No game selected.'' st, w)
                  else Inr (resolve_row st w (lb_get (modded_listbox st) (hd (modded_sel st)))))
            else (case get_selected_game st False of
                    Inl e \<Rightarrow> Inl (Some e, st, w)
                  | Inr full \<Rightarrow> Inr full)) of
        Inl returned \<Rightarrow> returned
      | Inr full \<Rightarrow>
          (case full of
             None \<Rightarrow> (None, showerror ''Play'' ''Selected game not found.'' st, w)
           | Some p \<Rightarrow>
               if falsy full \<or> \<not> os_path_exists w p
               then (None, showerror ''Play'' ''Selected game not found.'' st, w)
               else try_catch
                      (case subprocess_Popen w [p] (os_path_dirname p) of (e, w') \<Rightarrow> (e, st, w'))
                      (\<lambda>e st w. (None, showerror ''Play error''
                                           (''Failed to launch game:'' @ nl @ exn_text e) st, w))))"

definition delete_selected_game :: "launcher \<Rightarrow> world \<Rightarrow> bool \<Rightarrow> outcome" where
  "delete_selected_game st w confirm =
     (if modded_sel st = [] then (None, showwarning ''Delete'' ''No game selected.'' st, w)
      else (let full = resolve_row st w (lb_get (modded_listbox st) (hd (modded_sel st))) in
            case full of
              None \<Rightarrow> (None, showerror ''Delete'' ''Could not resolve selected game path.'' st, w)
            | Some p \<Rightarrow>
                if falsy full
                then (None, showerror ''Delete'' ''Could not resolve selected game path.'' st, w)
                else if \<not> confirm then (None, st, w)
                else try_catch
                       (case os_remove w p of
                          (Some e, w') \<Rightarrow> (Some e, st, w')
                        | (None, w') \<Rightarrow> (None, scan_games st w', w'))
                       (\<lambda>e st w. (None, showerror ''Delete error''
                                            (''Failed to delete:'' @ nl @ exn_text e) st, w))))"

definition rename_selected_game :: "launcher \<Rightarrow> world \<Rightarrow> string option \<Rightarrow> outcome" where
  "rename_selected_game st w answer =
     (if modded_sel st = [] then (None, showwarning ''Rename'' ''No game selected.'' st, w)
      else (let full = first_match (platform w) st (lb_get (modded_listbox st) (hd (modded_sel st))) in
            case full of
              None \<Rightarrow> (None, showerror ''Rename'' ''Could not resolve selected game path.'' st, w)
            | Some p \<Rightarrow>
                if falsy full \<or> \<not> os_path_exists w p
                then (None, showerror ''Rename'' ''Could not resolve selected game path.'' st, w)
                else (case answer of
                        None \<Rightarrow> (None, st, w)
                      | Some new_name \<Rightarrow>
                          if new_name = [] then (None, st, w)
                          else if \<not> endswith (lower new_name) ''.exe''
                          then (None, showerror ''Rename'' ''Filename must end with .exe'' st, w)
                          else (let new_path = os_path_join (os_path_dirname p)
                                                  (path_of_text (platform w) new_name)
                                in try_catch
                                     (case os_rename w p new_path of
                                        (Some e, w') \<Rightarrow> (Some e, st, w')
                                      | (None, w') \<Rightarrow> (None, scan_games st w', w'))
                                     (\<lambda>e st w. (None, showerror ''Rename error''
                                                          (''Failed to rename:'' @ nl @ exn_text e) st, w))))))"

text \<open>The example after the initial scan, and an installation without any game.\<close>

definition scanned_launcher :: launcher where
  "scanned_launcher = scan_games example_launcher example_world"

definition bare_world :: world where
  "bare_world = example_world\<lparr>root := Dir [(''app'', Dir [(''games'', Dir [])])]\<rparr>"

definition bare_launcher :: launcher where
  "bare_launcher = scan_games example_launcher bare_world"

subsection \<open>Start-up and the event loop\<close>

text \<open>
  \<^verbatim>\<open>__init__\<close>, with the result of \<^verbatim>\<open>get_base_dir()\<close> as an argument:
  \<^verbatim>\<open>os.makedirs\<close> is not in a try block; \<^verbatim>\<open>_build_ui\<close> creates two empty
  listboxes and the label; then the initial scan and the first poll.
\<close>

definition launcher_init :: "path \<Rightarrow> world \<Rightarrow> proc_env \<Rightarrow> outcome" where
  "launcher_init base w env =
     (let st0 = \<lparr>base_dir = base,
                 games_dir = os_path_join base (path_of_name GAMES_FOLDER_NAME),
                 games = [], games_listbox = [], games_sel = [],
                 modded_listbox = [], modded_sel = [],
                 modder_status_label = ''Modder status: unknown'',
                 dialogs = [], after_queue = []\<rparr>
      in case os_makedirs w (games_dir st0) of
           (Some e, w1) \<Rightarrow> (Some e, st0, w1)
         | (None, w1) \<Rightarrow>
             (case poll_modder_status (scan_games st0 w1) env of (e, st1) \<Rightarrow> (e, st1, w1)))"

text \<open>
  What the Tk main loop can deliver: the commands and bindings that \<^verbatim>\<open>_build_ui\<close>
  registers (with the answers that the user gives in their dialogs), a change of the
  selections, a due timer (with what the process enumerations deliver at that moment),
  and a change of the world by something else than the launcher.
\<close>

datatype event =
    Scan
  | UploadFiles "string list"
  | UploadFolder string
  | LaunchModder
  | Play bool
  | DeleteGame bool
  | RenameGame "string option"
  | Select "nat list" "nat list"
  | TimerDue proc_env
  | Outside world

text \<open>
  A due timer leaves the queue and its callback runs. The main loop reports an
  exception that escapes a callback and goes on.
\<close>

fun handle :: "event \<Rightarrow> launcher \<Rightarrow> world \<Rightarrow> outcome" where
  "handle Scan st w = (None, scan_games st w, w)"
| "handle (UploadFiles files) st w = upload_files st w files"
| "handle (UploadFolder src) st w = upload_folder st w src"
| "handle LaunchModder st w = launch_modder st w"
| "handle (Play from_modded) st w = play_selected_game st w from_modded"
| "handle (DeleteGame confirm) st w = delete_selected_game st w confirm"
| "handle (RenameGame answer) st w = rename_selected_game st w answer"
| "handle (Select gsel msel) st w = (None, st\<lparr>games_sel := gsel, modded_sel := msel\<rparr>, w)"
| "handle (TimerDue env) st w =
     (case after_queue st of
        [] \<Rightarrow> (None, st, w)
      | (ms, PollModderStatus) # rest \<Rightarrow>
          (case poll_modder_status (st\<lparr>after_queue := rest\<rparr>) env of (e, st') \<Rightarrow> (e, st', w)))"
| "handle (Outside w') st w = (None, st, w')"

fun mainloop :: "event list \<Rightarrow> launcher \<times> world \<Rightarrow> launcher \<times> world" where
  "mainloop [] s = s"
| "mainloop (ev # evs) s = mainloop evs (snd (handle ev (fst s) (snd s)))"

section \<open>Auxiliary notions for the statements\<close>

text \<open>
  The path that \<^verbatim>\<open>play_selected_game\<close> has in \<^verbatim>\<open>full\<close> before it tests whether it
  exists: from the selected row of the modded listbox, or from \<^verbatim>\<open>_get_selected_game\<close>.
\<close>

definition selected_path :: "launcher \<Rightarrow> world \<Rightarrow> bool \<Rightarrow> path option" where
  "selected_path st w from_modded =
     (if from_modded
      then (if modded_sel st = [] then None
            else resolve_row st w (lb_get (modded_listbox st) (hd (modded_sel st))))
      else (if games_sel st = [] \<or> length (games st) \<le> hd (games_sel st) then None
            else Some (games st ! hd (games_sel st))))"

text \<open>
  What is at a sequence of components: nothing, a directory (\<open>Some None\<close>), or a file
  with its content.
\<close>

fun kind :: "node \<Rightarrow> string option" where
  "kind (File c) = Some c"
| "kind (Dir es) = None"

definition stat :: "node \<Rightarrow> string list \<Rightarrow> string option option" where
  "stat n q = map_option kind (lookup n q)"

text \<open>The same for the entries of a directory, a name and the components below it.\<close>

definition stat_in :: "(string \<times> node) list \<Rightarrow> string \<Rightarrow> string list \<Rightarrow> string option option" where
  "stat_in es x xs = map_option kind (lookup_in es x xs)"

text \<open>
  The path that \<^verbatim>\<open>delete_selected_game\<close> asks the user to confirm, if it gets
  that far.
\<close>

definition delete_target :: "launcher \<Rightarrow> world \<Rightarrow> path option" where
  "delete_target st w =
     (if modded_sel st = [] then None
      else (let full = resolve_row st w (lb_get (modded_listbox st) (hd (modded_sel st)))
            in if falsy full then None else full))"

text \<open>
  The game that \<^verbatim>\<open>rename_selected_game\<close> resolved when it asks for the new name, if
  it gets that far.
\<close>

definition rename_target :: "launcher \<Rightarrow> world \<Rightarrow> path option" where
  "rename_target st w =
     (if modded_sel st = [] then None
      else (let full = first_match (platform w) st (lb_get (modded_listbox st) (hd (modded_sel st)))
            in case full of
                 None \<Rightarrow> None
               | Some p \<Rightarrow> if falsy full \<or> \<not> os_path_exists w p then None else Some p))"

text \<open>The example with the first row of the modded listbox selected.\<close>

definition first_selected :: launcher where
  "first_selected = scanned_launcher\<lparr>modded_sel := [0]\<rparr>"

text \<open>
  The destination that \<^verbatim>\<open>upload_files\<close> computes for a selected file, and the
  example with a file of the downloads folder that the system refuses to read.
\<close>

definition upload_dst :: "platform \<Rightarrow> launcher \<Rightarrow> string \<Rightarrow> path" where
  "upload_dst os st src = os_path_join (games_dir st) (path_of_name (basename_text os src))"

definition folder_dst :: "platform \<Rightarrow> launcher \<Rightarrow> string \<Rightarrow> path" where
  "folder_dst os st src =
     os_path_join (games_dir st)
       (path_of_name (os_path_basename (os_path_normpath (path_of_text os src))))"

definition locked_world :: world where
  "locked_world = example_world\<lparr>io_fault := (\<lambda>q. q = [''downloads'', ''new.exe''])\<rparr>"

text \<open>The poll is pending: it is the one callback in the queue of the event loop.\<close>

definition polling :: "launcher \<Rightarrow> bool" where
  "polling st = (after_queue st = [(STATUS_POLL_MS, PollModderStatus)])"

text \<open>Process tables with and without the modder.\<close>

definition modder_on :: proc_env where
  "modder_on = \<lparr>psutil = [Proc (Some ''explorer.exe''), Proc None, Proc (Some ''FlowlabModdingUtility.exe'')],
                tasklist = Inl CalledProcessError\<rparr>"

definition modder_off :: proc_env where
  "modder_off = \<lparr>psutil = [Raises ImportError], tasklist = Inr ''explorer.exe  812 Console''\<rparr>"

text \<open>The example with a subfolder of the games that the system refuses to list.\<close>

definition unlistable_world :: world where
  "unlistable_world = example_world\<lparr>io_fault := (\<lambda>q. q = [''app'', ''games'', ''Sub''])\<rparr>"

text \<open>
  Every directory on the way from \<open>d\<close> down the components \<open>rel\<close>, \<open>d\<close> itself
  included, is one that the system agrees to list.
\<close>

definition listable :: "world \<Rightarrow> path \<Rightarrow> string list \<Rightarrow> bool" where
  "listable w d rel = (\<forall>r \<in> set (prefixes rel). \<not> io_fault w (resolve w d @ r))"

text \<open>
  A bare file name: a text that is not empty and holds no separator of the platform
  and, on Windows, no colon.
\<close>

definition plain_name :: "platform \<Rightarrow> string \<Rightarrow> bool" where
  "plain_name os n = (n \<noteq> [] \<and> (\<forall>c \<in> set n. \<not> is_sep os c) \<and> (os = Windows \<longrightarrow> CHR '':'' \<notin> set n))"

text \<open>The installation on Windows after a scan, with the first row selected.\<close>

definition windows_selected :: launcher where
  "windows_selected = (scan_games windows_launcher windows_world)\<lparr>modded_sel := [0]\<rparr>"

text \<open>
  What no handler assigns: the two directories, and the queue of the event loop, which
  only the poll and the loop itself change.
\<close>

definition config :: "launcher \<Rightarrow> path \<times> path \<times> (nat \<times> callback) list" where
  "config st = (base_dir st, games_dir st, after_queue st)"

section \<open>Properties\<close>

subsection \<open>Lowering a character\<close>

text \<open>
  \<open>lower_char\<close> on the bits of a code point: a letter to lower has bit 6 set and bit 5
  clear, and lowering sets bit 5.
\<close>

lemma lower_char_code [code]:
  "lower_char (Char b0 b1 b2 b3 b4 b5 b6 b7) =
     (if b6 \<and> \<not> b5
         \<and> (if b7 then \<not> (b4 \<and> b2 \<and> b1 \<and> b0)
             else (b0 \<or> b1 \<or> b2 \<or> b3 \<or> b4) \<and> \<not> (b4 \<and> b3 \<and> (b2 \<or> (b1 \<and> b0))))
      then Char b0 b1 b2 b3 b4 True b6 b7
      else Char b0 b1 b2 b3 b4 b5 b6 b7)"
  by (cases b0; cases b1; cases b2; cases b3; cases b4; cases b5; cases b6; cases b7)
     (simp_all add: lower_char_def Let_def char_of_def bit_Suc_0_iff)

subsection \<open>The process check never raises\<close>

lemma is_process_running_psutil_raises:
  assumes "psutil_loop (lower name) (psutil env) = Inl e"
  shows "is_process_running env name =
           (case tasklist env of Inl e' \<Rightarrow> Inr False | Inr out \<Rightarrow> Inr (sublist (lower name) (lower out)))"
  using assms
  by (simp add: is_process_running_def try_except_def tasklist_check_def Let_def split: sum.splits)

lemma is_process_running_both_fail:
  assumes "psutil_loop (lower name) (psutil env) \<noteq> Inr True" and "tasklist env = Inl e'"
  shows "is_process_running env name = Inr False"
proof (cases "psutil_loop (lower name) (psutil env)")
  case (Inl e)
  with assms(2) show ?thesis
    by (simp add: is_process_running_psutil_raises)
next
  case (Inr b)
  with assms have "b = False" by simp
  with Inr assms(2) show ?thesis
    by (simp add: is_process_running_def try_except_def tasklist_check_def Let_def)
qed

text \<open>
  Claim C8. For every process environment and every name, \<^verbatim>\<open>is_process_running\<close>
  returns a Boolean and raises nothing. When the psutil enumeration raises, the result is
  the one of the tasklist fallback (whether the lowered name occurs in the lowered
  output), and when the psutil enumeration did not find the name and tasklist raises too,
  the result is \<^verbatim>\<open>False\<close>.
\<close>

theorem is_process_running_total:
  "(\<exists>b. is_process_running env name = Inr b)
   \<and> (\<forall>e out. psutil_loop (lower name) (psutil env) = Inl e \<and> tasklist env = Inr out
        \<longrightarrow> is_process_running env name = Inr (sublist (lower name) (lower out)))
   \<and> (\<forall>e'. psutil_loop (lower name) (psutil env) \<noteq> Inr True \<and> tasklist env = Inl e'
        \<longrightarrow> is_process_running env name = Inr False)"
proof (intro conjI allI impI)
  show "\<exists>b. is_process_running env name = Inr b"
    by (auto simp: is_process_running_def try_except_def tasklist_check_def Let_def
             split: sum.splits bool.splits)
next
  fix e out
  assume "psutil_loop (lower name) (psutil env) = Inl e \<and> tasklist env = Inr out"
  then show "is_process_running env name = Inr (sublist (lower name) (lower out))"
    by (simp add: is_process_running_psutil_raises)
next
  fix e'
  assume "psutil_loop (lower name) (psutil env) \<noteq> Inr True \<and> tasklist env = Inl e'"
  then show "is_process_running env name = Inr False"
    by (simp add: is_process_running_both_fail)
qed

text \<open>
  The theorem at two environments: psutil cannot be imported and tasklist lists the
  modder; psutil raises after one process and tasklist fails as well.
\<close>

theorem is_process_running_total_witness:
  "psutil_loop (lower MODDER_EXE) [Raises ImportError] = Inl ImportError
   \<and> is_process_running
        \<lparr>psutil = [Raises ImportError], tasklist = Inr ''FlowlabModdingUtility.exe  4242 Console''\<rparr>
        MODDER_EXE = Inr True
   \<and> psutil_loop (lower MODDER_EXE) [Proc (Some ''explorer.exe''), Raises PsutilError] \<noteq> Inr True
   \<and> is_process_running
        \<lparr>psutil = [Proc (Some ''explorer.exe''), Raises PsutilError], tasklist = Inl CalledProcessError\<rparr>
        MODDER_EXE = Inr False"
proof -
  let ?env1 = "\<lparr>psutil = [Raises ImportError], tasklist = Inr ''FlowlabModdingUtility.exe  4242 Console''\<rparr>"
  let ?env2 = "\<lparr>psutil = [Proc (Some ''explorer.exe''), Raises PsutilError], tasklist = Inl CalledProcessError\<rparr>"
  have a: "psutil_loop (lower MODDER_EXE) (psutil ?env1) = Inl ImportError
           \<and> tasklist ?env1 = Inr ''FlowlabModdingUtility.exe  4242 Console''"
    by simp
  have s: "sublist (lower MODDER_EXE) (lower ''FlowlabModdingUtility.exe  4242 Console'')"
    by code_simp
  have b: "psutil_loop (lower MODDER_EXE) (psutil ?env2) \<noteq> Inr True"
    by code_simp
  have b': "psutil_loop (lower MODDER_EXE) (psutil ?env2) \<noteq> Inr True \<and> tasklist ?env2 = Inl CalledProcessError"
    using b by simp
  note t1 = is_process_running_total [of ?env1 MODDER_EXE]
  note t2 = is_process_running_total [of ?env2 MODDER_EXE]
  from t1 [THEN conjunct2, THEN conjunct1, rule_format, OF a] s
  have r1: "is_process_running ?env1 MODDER_EXE = Inr True" by simp
  from t2 [THEN conjunct2, THEN conjunct2, rule_format, OF b']
  have r2: "is_process_running ?env2 MODDER_EXE = Inr False" .
  from a b r1 r2 show ?thesis by simp
qed

subsection \<open>Scanning\<close>

lemma scan_files_eq:
  "scan_files d files gs =
     gs @ map (\<lambda>f. os_path_join d (Path False [f])) (filter (\<lambda>f. endswith (lower f) MODDED_EXT) files)"
  by (induction files arbitrary: gs) auto

lemma scan_walk_eq:
  "scan_walk ts gs =
     gs @ concat (map (\<lambda>(d, dirs, files).
            map (\<lambda>f. os_path_join d (Path False [f])) (filter (\<lambda>f. endswith (lower f) MODDED_EXT) files)) ts)"
  by (induction ts gs rule: scan_walk.induct) (auto simp: scan_files_eq)

lemma insert_rows_eq:
  "insert_rows os st ps (glb, mlb) = (glb @ map (display os st) ps, mlb @ map (display os st) ps)"
  by (induction ps arbitrary: glb mlb) auto

lemma games_scan_games:
  "games (scan_games st w)
     = sort_key (sort_keyfn (platform w) st) (scan_walk (os_walk w (games_dir st)) [])"
  by (simp add: scan_games_def Let_def sort_keyfn_def split: prod.splits)

lemma lookup_in_distinct:
  "distinct (map fst es) \<Longrightarrow> (x, t) \<in> set es \<Longrightarrow> lookup_in es x xs = lookup t xs"
  by (induction es) (auto simp: rev_image_eqI)

lemma lookup_in_SomeD:
  "lookup_in es x xs = Some r \<Longrightarrow> \<exists>t. (x, t) \<in> set es \<and> lookup t xs = Some r"
  by (induction es) (auto split: if_splits)

lemma join_name: "os_path_join d (Path False xs) = PathD (drive d) (is_abs d) (parts d @ xs)"
  by (simp add: os_path_join_def)

lemma lookup_File: "lookup (File c) xs = Some r \<longleftrightarrow> xs = [] \<and> r = File c"
  by (cases xs) auto

lemma walk_node_files:
  "wf_node n \<Longrightarrow>
   (\<exists>dirs files. (d', dirs, files) \<in> set (walk_node refused q d n) \<and> f \<in> set files)
     \<longleftrightarrow> (\<exists>rel c. d' = PathD (drive d) (is_abs d) (parts d @ rel)
                    \<and> lookup n (rel @ [f]) = Some (File c)
                    \<and> (\<forall>r. prefix r rel \<longrightarrow> \<not> refused (q @ r)))"
proof (induction refused q d n arbitrary: d' rule: walk_node.induct)
  case (1 refused q d c)
  then show ?case by (simp add: lookup_File)
next
  case (2 refused q d es)
  from "2.prems" have dist: "distinct (map fst es)" and wfs: "\<And>e. e \<in> set es \<Longrightarrow> wf_node (snd e)"
    by auto
  show ?case
  proof (cases "refused q")
    case True
    have "\<not> (\<forall>r. prefix r rel \<longrightarrow> \<not> refused (q @ r))" for rel
      using True by (auto intro: exI[of _ "[]"])
    with True show ?thesis by simp
  next
    case nr: False
    show ?thesis
    proof
      assume "\<exists>dirs files. (d', dirs, files) \<in> set (walk_node refused q d (Dir es)) \<and> f \<in> set files"
      then obtain dirs files where m: "(d', dirs, files) \<in> set (walk_node refused q d (Dir es))"
        and f: "f \<in> set files"
        by blast
      from m nr consider
        (here) "d' = d" "files = map fst (filter (\<lambda>e. \<not> is_dir (snd e)) es)"
        | (below) e where "e \<in> set es"
            "(d', dirs, files) \<in> set (walk_node refused (q @ [fst e]) (os_path_join d (Path False [fst e])) (snd e))"
        by auto
      then show "\<exists>rel c. d' = PathD (drive d) (is_abs d) (parts d @ rel)
                    \<and> lookup (Dir es) (rel @ [f]) = Some (File c)
                    \<and> (\<forall>r. prefix r rel \<longrightarrow> \<not> refused (q @ r))"
      proof cases
        case here
        with f obtain t where t: "(f, t) \<in> set es" "\<not> is_dir t" by auto
        then obtain c where "t = File c" by (cases t) auto
        with t dist have "lookup (Dir es) ([] @ [f]) = Some (File c)"
          by (simp add: lookup_in_distinct)
        moreover have "d' = PathD (drive d) (is_abs d) (parts d @ [])" using here by simp
        moreover have "\<forall>r. prefix r [] \<longrightarrow> \<not> refused (q @ r)" using nr by simp
        ultimately show ?thesis by blast
      next
        case below
        from f below(2) have "\<exists>dirs files. (d', dirs, files)
             \<in> set (walk_node refused (q @ [fst e]) (os_path_join d (Path False [fst e])) (snd e)) \<and> f \<in> set files"
          by blast
        with "2.IH"[OF nr below(1) wfs[OF below(1)], of d'] obtain rel c where
          r: "d' = PathD (drive d) (is_abs d) (parts d @ fst e # rel)"
             "lookup (snd e) (rel @ [f]) = Some (File c)"
             "\<forall>r. prefix r rel \<longrightarrow> \<not> refused ((q @ [fst e]) @ r)"
          by (auto simp: join_name)
        from below(1) dist have "lookup (Dir es) ((fst e # rel) @ [f]) = lookup (snd e) (rel @ [f])"
          using lookup_in_distinct[of es "fst e" "snd e"] by simp
        moreover have "\<forall>r. prefix r (fst e # rel) \<longrightarrow> \<not> refused (q @ r)"
          using r(3) nr by (auto simp: prefix_Cons)
        ultimately show ?thesis using r(1,2) by metis
      qed
    next
      assume "\<exists>rel c. d' = PathD (drive d) (is_abs d) (parts d @ rel)
                    \<and> lookup (Dir es) (rel @ [f]) = Some (File c)
                    \<and> (\<forall>r. prefix r rel \<longrightarrow> \<not> refused (q @ r))"
      then obtain rel c where r: "d' = PathD (drive d) (is_abs d) (parts d @ rel)"
        "lookup (Dir es) (rel @ [f]) = Some (File c)" "\<forall>r. prefix r rel \<longrightarrow> \<not> refused (q @ r)"
        by blast
      show "\<exists>dirs files. (d', dirs, files) \<in> set (walk_node refused q d (Dir es)) \<and> f \<in> set files"
      proof (cases rel)
        case Nil
        with r have "lookup_in es f [] = Some (File c)" by simp
        then have "(f, File c) \<in> set es" by (auto dest: lookup_in_SomeD)
        then have "f \<in> set (map fst (filter (\<lambda>e. \<not> is_dir (snd e)) es))" by force
        moreover from Nil r have "d' = d" by simp
        moreover have "(d, map fst (filter (\<lambda>e. is_dir (snd e)) es), map fst (filter (\<lambda>e. \<not> is_dir (snd e)) es))
                         \<in> set (walk_node refused q d (Dir es))" using nr by simp
        ultimately show ?thesis by blast
      next
        case (Cons x rel')
        with r have "lookup_in es x (rel' @ [f]) = Some (File c)" by simp
        then obtain t where t: "(x, t) \<in> set es" "lookup t (rel' @ [f]) = Some (File c)"
          by (auto dest: lookup_in_SomeD)
        have d': "d' = PathD (drive (os_path_join d (Path False [x]))) (is_abs (os_path_join d (Path False [x])))
                        (parts (os_path_join d (Path False [x])) @ rel')"
          using r(1) Cons by (simp add: join_name)
        have nf: "\<forall>r. prefix r rel' \<longrightarrow> \<not> refused ((q @ [x]) @ r)"
          using r(3) Cons by (auto simp: prefix_Cons)
        from "2.IH"[OF nr t(1) wfs[OF t(1)], of d'] d' t(2) nf obtain dirs files where
          "(d', dirs, files) \<in> set (walk_node refused (q @ [x]) (os_path_join d (Path False [x])) t)"
          "f \<in> set files"
          by auto
        with t(1) nr show ?thesis by force
      qed
    qed
  qed
qed

lemma lookup_append:
  "lookup n (xs @ ys) = (case lookup n xs of None \<Rightarrow> None | Some m \<Rightarrow> lookup m ys)"
  and lookup_in_append:
  "lookup_in es x (xs @ ys) = (case lookup_in es x xs of None \<Rightarrow> None | Some m \<Rightarrow> lookup m ys)"
  by (induction n xs and es x xs rule: lookup_lookup_in.induct) auto

lemma wf_lookup: "wf_node n \<Longrightarrow> lookup n xs = Some m \<Longrightarrow> wf_node m"
  and wf_lookup_in: "\<forall>e \<in> set es. wf_node (snd e) \<Longrightarrow> lookup_in es x xs = Some m \<Longrightarrow> wf_node m"
  by (induction n xs and es x xs rule: lookup_lookup_in.induct) (auto split: if_splits)

lemma resolve_join: "resolve w (os_path_join d (Path False xs)) = resolve w d @ xs"
  by (cases "platform w") (simp_all add: resolve_def os_path_join_def Let_def)

lemma set_scan_walk:
  "set (scan_walk ts []) =
     {os_path_join d (Path False [f]) | d dirs files f.
        (d, dirs, files) \<in> set ts \<and> f \<in> set files \<and> endswith (lower f) MODDED_EXT}"
  by (auto simp: scan_walk_eq)

lemma listable_iff:
  "listable w d rel \<longleftrightarrow> (\<forall>r. prefix r rel \<longrightarrow> \<not> io_fault w (resolve w d @ r))"
  by (auto simp: listable_def)

lemma os_walk_files:
  assumes "wf_node (root w)"
  shows "(\<exists>dirs files. (d', dirs, files) \<in> set (os_walk w d) \<and> f \<in> set files)
         \<longleftrightarrow> (\<exists>rel. d' = os_path_join d (Path False rel)
                    \<and> os_path_isfile w (os_path_join d (Path False (rel @ [f])))
                    \<and> listable w d rel)"
proof (cases "lookup (root w) (resolve w d)")
  case None
  then show ?thesis
    by (simp add: os_walk_def os_path_isfile_def resolve_join lookup_append)
next
  case (Some n)
  with assms have "wf_node n" by (rule wf_lookup)
  note wn = walk_node_files[OF this, of d' "io_fault w" "resolve w d" d f]
  have isf: "os_path_isfile w (os_path_join d (Path False (rel @ [f]))) \<longleftrightarrow> (\<exists>c. lookup n (rel @ [f]) = Some (File c))" for rel
    using Some by (auto simp: os_path_isfile_def resolve_join lookup_append split: option.splits node.splits)
  show ?thesis
    unfolding isf listable_iff using Some wn by (simp add: os_walk_def join_name)
qed

lemma scan_walk_concat:
  "scan_walk (concat tss) [] = concat (map (\<lambda>ts. scan_walk ts []) tss)"
  by (induction tss) (simp_all add: scan_walk_eq)

lemma distinct_concat_entries:
  assumes "distinct (map fst es)"
    and "\<And>e. e \<in> set es \<Longrightarrow> distinct (g e)"
    and "\<And>e x. e \<in> set es \<Longrightarrow> x \<in> set (g e) \<Longrightarrow> key x = fst e"
  shows "distinct (concat (map g es))"
  using assms
proof (induction es)
  case Nil
  show ?case by simp
next
  case (Cons e es)
  have d: "distinct (g e)" using Cons.prems(2) by simp
  have r: "distinct (concat (map g es))"
    using Cons.prems by (intro Cons.IH) auto
  have "set (g e) \<inter> set (concat (map g es)) = {}"
  proof (rule ccontr)
    assume "set (g e) \<inter> set (concat (map g es)) \<noteq> {}"
    then obtain x where x1: "x \<in> set (g e)" and x2: "x \<in> set (concat (map g es))" by blast
    from x2 obtain e' where "e' \<in> set es" "x \<in> set (g e')" by auto
    with x1 have x: "x \<in> set (g e)" "e' \<in> set es" "x \<in> set (g e')" by simp_all
    from Cons.prems(3)[of e x] x(1) have "key x = fst e" by simp
    moreover from Cons.prems(3)[of e' x] x(2,3) have "key x = fst e'" by simp
    ultimately have "fst e = fst e'" by simp
    with x(2) Cons.prems(1) show False by force
  qed
  with d r show ?case by simp
qed

lemma scan_walk_found:
  assumes "wf_node n" "p \<in> set (scan_walk (walk_node refused q d n) [])"
  shows "\<exists>rel f. p = PathD (drive d) (is_abs d) (parts d @ rel @ [f])"
proof -
  from assms(2) obtain d' dirs files f where
    m: "p = os_path_join d' (Path False [f])" "(d', dirs, files) \<in> set (walk_node refused q d n)"
       "f \<in> set files"
    by (auto simp: set_scan_walk)
  then have "\<exists>dirs files. (d', dirs, files) \<in> set (walk_node refused q d n) \<and> f \<in> set files"
    by blast
  with walk_node_files[OF assms(1), of d' refused q d f] obtain rel where
    "d' = PathD (drive d) (is_abs d) (parts d @ rel)"
    by blast
  with m(1) show ?thesis by (auto simp: join_name)
qed

lemma distinct_scan_walk:
  "wf_node n \<Longrightarrow> distinct (scan_walk (walk_node refused q d n) [])"
proof (induction refused q d n rule: walk_node.induct)
  case (1 refused q d c)
  show ?case by simp
next
  case (2 refused q d es)
  from "2.prems" have dist: "distinct (map fst es)" and wfs: "\<And>e. e \<in> set es \<Longrightarrow> wf_node (snd e)"
    by auto
  show ?case
  proof (cases "refused q")
    case True
    then show ?thesis by simp
  next
    case nr: False
    let ?W = "\<lambda>e. walk_node refused (q @ [fst e]) (os_path_join d (Path False [fst e])) (snd e)"
    let ?g = "\<lambda>e. scan_walk (?W e) []"
    let ?names = "filter (\<lambda>f. endswith (lower f) MODDED_EXT) (map fst (filter (\<lambda>e. \<not> is_dir (snd e)) es))"
    let ?tops = "map (\<lambda>f. os_path_join d (Path False [f])) ?names"
    have eq: "scan_walk (walk_node refused q d (Dir es)) [] = ?tops @ concat (map ?g es)"
      using nr scan_walk_concat[of "map ?W es"]
      by (simp add: scan_walk_eq[of "_ # _"] o_def) (simp add: scan_walk_eq)
    have "distinct (map fst (filter (\<lambda>e. \<not> is_dir (snd e)) es))"
      using dist by (rule distinct_map_filter)
    then have dn: "distinct ?names" by simp
    have inj: "inj_on (\<lambda>f. os_path_join d (Path False [f])) (set ?names)"
      by (rule inj_onI) (simp add: join_name)
    have dt: "distinct ?tops" using dn inj by (simp add: distinct_map)
    have below: "\<exists>rel f. x = PathD (drive d) (is_abs d) (parts d @ fst e # rel @ [f])"
      if "e \<in> set es" "x \<in> set (?g e)" for e x
      using scan_walk_found[OF wfs[OF that(1)] that(2)] by (auto simp: join_name)
    have dg: "distinct (concat (map ?g es))"
    proof (rule distinct_concat_entries[where key = "\<lambda>x. parts x ! length (parts d)"])
      show "distinct (map fst es)" by (rule dist)
      show "distinct (?g e)" if "e \<in> set es" for e
        using "2.IH"[OF nr that wfs[OF that]] .
      show "parts x ! length (parts d) = fst e" if "e \<in> set es" "x \<in> set (?g e)" for e x
        using below[OF that] by auto
    qed
    have "set ?tops \<inter> set (concat (map ?g es)) = {}"
    proof (rule ccontr)
      assume "set ?tops \<inter> set (concat (map ?g es)) \<noteq> {}"
      then obtain x where x1: "x \<in> set ?tops" and x2: "x \<in> set (concat (map ?g es))" by blast
      from x2 obtain e where "e \<in> set es" "x \<in> set (?g e)" by auto
      with x1 have x: "x \<in> set ?tops" "e \<in> set es" "x \<in> set (?g e)" by simp_all
      from x(1) obtain f where "x = PathD (drive d) (is_abs d) (parts d @ [f])"
        by (auto simp: join_name)
      moreover from below[OF x(2,3)] obtain rel f' where
        "x = PathD (drive d) (is_abs d) (parts d @ fst e # rel @ [f'])" by blast
      ultimately show False by simp
    qed
    with dt dg show ?thesis unfolding eq by simp
  qed
qed

lemma distinct_games:
  assumes "wf_node (root w)"
  shows "distinct (games (scan_games st w))"
proof (cases "lookup (root w) (resolve w (games_dir st))")
  case None
  then show ?thesis by (simp add: games_scan_games os_walk_def)
next
  case (Some n)
  with assms have "wf_node n" by (rule wf_lookup)
  then have "distinct (scan_walk (walk_node (io_fault w) (resolve w (games_dir st)) (games_dir st) n) [])"
    by (rule distinct_scan_walk)
  with Some show ?thesis by (simp add: games_scan_games os_walk_def)
qed

subsection \<open>Rows of the listboxes\<close>

lemma sort_keyfn_upd [simp]:
  "sort_keyfn os (st\<lparr>games := a\<rparr>) = sort_keyfn os st"
  "sort_keyfn os (st\<lparr>games_listbox := b\<rparr>) = sort_keyfn os st"
  "sort_keyfn os (st\<lparr>games_sel := c\<rparr>) = sort_keyfn os st"
  "sort_keyfn os (st\<lparr>modded_listbox := b\<rparr>) = sort_keyfn os st"
  "sort_keyfn os (st\<lparr>modded_sel := c\<rparr>) = sort_keyfn os st"
  by (simp_all add: sort_keyfn_def)

lemma display_upd [simp]:
  "display os (st\<lparr>games := a\<rparr>) = display os st"
  "display os (st\<lparr>games_listbox := b\<rparr>) = display os st"
  "display os (st\<lparr>games_sel := c\<rparr>) = display os st"
  "display os (st\<lparr>modded_listbox := b\<rparr>) = display os st"
  "display os (st\<lparr>modded_sel := c\<rparr>) = display os st"
  by (simp_all add: display_def)

lemma scan_games_eq:
  "scan_games st w =
     (let gs = sort_key (sort_keyfn (platform w) st) (scan_walk (os_walk w (games_dir st)) [])
      in st\<lparr>games := gs,
             games_listbox := (if gs = [] then [placeholder] else map (display (platform w) st) gs),
             games_sel := [],
             modded_listbox := (if gs = [] then [] else map (display (platform w) st) gs),
             modded_sel := []\<rparr>)"
  by (simp add: scan_games_def Let_def insert_rows_eq)

lemma sorted_sort_keyfn: "sorted (map (sort_keyfn (platform w) st) (games (scan_games st w)))"
  by (simp add: games_scan_games)

lemma norm_comps_plain:
  "\<forall>x \<in> set xs. x \<noteq> [] \<and> x \<noteq> ''.'' \<and> x \<noteq> ''..'' \<Longrightarrow> norm_comps a acc xs = acc @ xs"
  by (induction xs arbitrary: acc) simp_all

lemma common_len_append: "common_len os xs (xs @ ys) = length xs"
  by (induction xs) (simp_all add: common_len_def)

lemma relpath_below:
  assumes "\<forall>x \<in> set (xs @ ys). x \<noteq> [] \<and> x \<noteq> ''.'' \<and> x \<noteq> ''..''" "ys \<noteq> []"
  shows "os_path_relpath os (PathD dr' True (xs @ ys)) (PathD dr True xs) = Path False ys"
proof -
  from assms(1) have a: "\<forall>x \<in> set xs. x \<noteq> [] \<and> x \<noteq> ''.'' \<and> x \<noteq> ''..''" by simp
  have n1: "norm_comps True [] xs = xs" using norm_comps_plain[OF a, of True "[]"] by simp
  have n2: "norm_comps True [] (xs @ ys) = xs @ ys"
    using norm_comps_plain[OF assms(1), of True "[]"] by simp
  show ?thesis using assms(2)
    by (simp add: os_path_relpath_def os_path_normpath_def n1 n2 common_len_append Let_def)
qed

text \<open>
  Claim C2. When a scan finds a game, the rows of both listboxes are the games' paths
  relative to \<^verbatim>\<open>base_dir\<close>, in the order of the games list: row \<open>i\<close> shows game
  \<open>i\<close>. The games list is sorted by the lowered text of the relative path, as the
  platform writes it and as Python compares strings. For a game below the base directory
  that text is the components after those of the base directory, joined by the separator
  of the platform. When nothing is found the games listbox holds the placeholder row
  only and the other listbox is empty.
\<close>

theorem scan_games_rows:
  "(games (scan_games st w) \<noteq> [] \<longrightarrow>
      games_listbox (scan_games st w)
        = map (\<lambda>p. render (platform w) (os_path_relpath (platform w) p (base_dir st))) (games (scan_games st w))
    \<and> modded_listbox (scan_games st w)
        = map (\<lambda>p. render (platform w) (os_path_relpath (platform w) p (base_dir st))) (games (scan_games st w))
    \<and> (\<forall>i < length (games (scan_games st w)).
          games_listbox (scan_games st w) ! i
            = render (platform w) (os_path_relpath (platform w) (games (scan_games st w) ! i) (base_dir st))))
   \<and> sorted (map (\<lambda>p. lower (render (platform w) (os_path_relpath (platform w) p (base_dir st))))
               (games (scan_games st w)))
   \<and> (\<forall>dr dr' xs ys. (\<forall>x \<in> set (xs @ ys). x \<noteq> [] \<and> x \<noteq> ''.'' \<and> x \<noteq> ''..'') \<and> ys \<noteq> [] \<longrightarrow>
          render (platform w) (os_path_relpath (platform w) (PathD dr' True (xs @ ys)) (PathD dr True xs))
            = join_sep (sep (platform w)) ys)
   \<and> (games (scan_games st w) = [] \<longrightarrow>
        games_listbox (scan_games st w) = [placeholder] \<and> modded_listbox (scan_games st w) = [])"
proof -
  let ?gs = "games (scan_games st w)"
  have rows: "?gs \<noteq> [] \<Longrightarrow> games_listbox (scan_games st w) = map (display (platform w) st) ?gs
                         \<and> modded_listbox (scan_games st w) = map (display (platform w) st) ?gs"
    by (simp add: scan_games_eq Let_def)
  have empty: "?gs = [] \<Longrightarrow> games_listbox (scan_games st w) = [placeholder] \<and> modded_listbox (scan_games st w) = []"
    by (simp add: scan_games_eq Let_def)
  have srt: "sorted (map (\<lambda>p. lower (render (platform w) (os_path_relpath (platform w) p (base_dir st)))) ?gs)"
    using sorted_sort_keyfn[of w st] by (simp add: sort_keyfn_def)
  have rel: "render (platform w) (os_path_relpath (platform w) (PathD dr' True (xs @ ys)) (PathD dr True xs))
            = join_sep (sep (platform w)) ys"
    if "(\<forall>x \<in> set (xs @ ys). x \<noteq> [] \<and> x \<noteq> ''.'' \<and> x \<noteq> ''..'') \<and> ys \<noteq> []" for dr dr' xs ys
    using that relpath_below[of xs ys "platform w" dr' dr] by (simp add: render_def)
  from rows empty srt rel show ?thesis
    by (simp add: display_def)
qed

text \<open>
  On the examples: the rows of the installation on POSIX; the four games whose order
  depends on the separator and on the lowering of accented letters, on POSIX and on
  Windows.
\<close>

theorem scan_games_rows_witness:
  "games (scan_games example_launcher example_world) \<noteq> []
   \<and> games_listbox (scan_games example_launcher example_world) = [''games/b.EXE'', ''games/Sub/A.exe'']
   \<and> modded_listbox (scan_games example_launcher example_world) = [''games/b.EXE'', ''games/Sub/A.exe'']
   \<and> games_listbox (scan_games example_launcher posix_world)
       = [''games/sub/x.exe'', ''games/sub1.exe'', ''games/'' @ CHR 0xE8 # ''.exe'', ''games/'' @ CHR 0xC9 # ''.exe'']
   \<and> games_listbox (scan_games windows_launcher windows_world)
       = [''games'' @ backslash # ''sub1.exe'', ''games'' @ backslash # ''sub'' @ backslash # ''x.exe'',
          ''games'' @ backslash # CHR 0xE8 # ''.exe'', ''games'' @ backslash # CHR 0xC9 # ''.exe'']"
proof -
  have g: "games (scan_games example_launcher example_world)
            = [Path True [''app'', ''games'', ''b.EXE''], Path True [''app'', ''games'', ''Sub'', ''A.exe'']]"
    by code_simp
  have b: "base_dir example_launcher = Path True [''app'']" "platform example_world = Posix" by code_simp+
  have r1: "render Posix (os_path_relpath Posix (Path True [''app'', ''games'', ''b.EXE'']) (Path True [''app''])) = ''games/b.EXE''"
    by code_simp
  have r2: "render Posix (os_path_relpath Posix (Path True [''app'', ''games'', ''Sub'', ''A.exe'']) (Path True [''app''])) = ''games/Sub/A.exe''"
    by code_simp
  have gp: "games (scan_games example_launcher posix_world)
            = [Path True [''app'', ''games'', ''sub'', ''x.exe''], Path True [''app'', ''games'', ''sub1.exe''],
               Path True [''app'', ''games'', CHR 0xE8 # ''.exe''], Path True [''app'', ''games'', CHR 0xC9 # ''.exe'']]"
    by code_simp
  have bp: "platform posix_world = Posix" by code_simp
  have rp: "map (\<lambda>p. render Posix (os_path_relpath Posix p (Path True [''app''])))
              [Path True [''app'', ''games'', ''sub'', ''x.exe''], Path True [''app'', ''games'', ''sub1.exe''],
               Path True [''app'', ''games'', CHR 0xE8 # ''.exe''], Path True [''app'', ''games'', CHR 0xC9 # ''.exe'']]
            = [''games/sub/x.exe'', ''games/sub1.exe'', ''games/'' @ CHR 0xE8 # ''.exe'', ''games/'' @ CHR 0xC9 # ''.exe'']"
    by code_simp
  have gw: "games (scan_games windows_launcher windows_world)
            = [PathD ''C:'' True [''app'', ''games'', ''sub1.exe''], PathD ''C:'' True [''app'', ''games'', ''sub'', ''x.exe''],
               PathD ''C:'' True [''app'', ''games'', CHR 0xE8 # ''.exe''], PathD ''C:'' True [''app'', ''games'', CHR 0xC9 # ''.exe'']]"
    by code_simp
  have bw: "base_dir windows_launcher = PathD ''C:'' True [''app'']" "platform windows_world = Windows"
    by code_simp+
  have rw: "map (\<lambda>p. render Windows (os_path_relpath Windows p (PathD ''C:'' True [''app''])))
              [PathD ''C:'' True [''app'', ''games'', ''sub1.exe''], PathD ''C:'' True [''app'', ''games'', ''sub'', ''x.exe''],
               PathD ''C:'' True [''app'', ''games'', CHR 0xE8 # ''.exe''], PathD ''C:'' True [''app'', ''games'', CHR 0xC9 # ''.exe'']]
            = [''games'' @ backslash # ''sub1.exe'', ''games'' @ backslash # ''sub'' @ backslash # ''x.exe'',
               ''games'' @ backslash # CHR 0xE8 # ''.exe'', ''games'' @ backslash # CHR 0xC9 # ''.exe'']"
    by code_simp
  from scan_games_rows [of example_launcher example_world, THEN conjunct1] g b r1 r2
  have c1: "games_listbox (scan_games example_launcher example_world) = [''games/b.EXE'', ''games/Sub/A.exe'']
            \<and> modded_listbox (scan_games example_launcher example_world) = [''games/b.EXE'', ''games/Sub/A.exe'']"
    by simp
  from scan_games_rows [of example_launcher posix_world, THEN conjunct1] gp b(1) bp rp
  have c2: "games_listbox (scan_games example_launcher posix_world)
       = [''games/sub/x.exe'', ''games/sub1.exe'', ''games/'' @ CHR 0xE8 # ''.exe'', ''games/'' @ CHR 0xC9 # ''.exe'']"
    by simp
  from scan_games_rows [of windows_launcher windows_world, THEN conjunct1] gw bw rw
  have c3: "games_listbox (scan_games windows_launcher windows_world)
       = [''games'' @ backslash # ''sub1.exe'', ''games'' @ backslash # ''sub'' @ backslash # ''x.exe'',
          ''games'' @ backslash # CHR 0xE8 # ''.exe'', ''games'' @ backslash # CHR 0xC9 # ''.exe'']"
    by simp
  from g c1 c2 c3 show ?thesis by simp
qed

subsection \<open>The selected game\<close>

lemma py_index_hd: "sel \<noteq> [] \<Longrightarrow> py_index sel 0 = Inr (hd sel)"
  by (cases sel) (simp_all add: py_index_def)

text \<open>
  Claim C10. \<^verbatim>\<open>_get_selected_game\<close> raises no \<^verbatim>\<open>IndexError\<close> in any state: it
  returns \<^verbatim>\<open>None\<close> when nothing is selected or when the selected row index is not
  below the length of the games list, as when the placeholder row is selected, and the
  game at that index otherwise. \<^verbatim>\<open>play_selected_game\<close> then reports that the selected
  game was not found and raises nothing.
\<close>

theorem get_selected_game_in_range:
  "get_selected_game st from_modded =
     Inr (let sel = (if from_modded then modded_sel st else games_sel st)
          in if sel = [] \<or> length (games st) \<le> hd sel then None else Some (games st ! hd sel))
   \<and> (get_selected_game st False = Inr None \<longrightarrow>
        play_selected_game st w False = (None, showerror ''Play'' ''Selected game not found.'' st, w))"
proof
  show "get_selected_game st from_modded =
     Inr (let sel = (if from_modded then modded_sel st else games_sel st)
          in if sel = [] \<or> length (games st) \<le> hd sel then None else Some (games st ! hd sel))"
    by (simp add: get_selected_game_def Let_def py_index_hd) (simp add: py_index_def)
next
  show "get_selected_game st False = Inr None \<longrightarrow>
        play_selected_game st w False = (None, showerror ''Play'' ''Selected game not found.'' st, w)"
    by (simp add: play_selected_game_def)
qed

text \<open>The placeholder row of an installation without games, selected and played.\<close>

theorem get_selected_game_in_range_witness:
  "games_listbox bare_launcher = [placeholder]
   \<and> games bare_launcher = []
   \<and> get_selected_game (bare_launcher\<lparr>games_sel := [0]\<rparr>) False = Inr None
   \<and> play_selected_game (bare_launcher\<lparr>games_sel := [0]\<rparr>) bare_world False
       = (None, showerror ''Play'' ''Selected game not found.'' (bare_launcher\<lparr>games_sel := [0]\<rparr>), bare_world)"
proof -
  have g: "games bare_launcher = []" by code_simp
  have l: "games_listbox bare_launcher = [placeholder]" by code_simp
  note t = get_selected_game_in_range [of "bare_launcher\<lparr>games_sel := [0]\<rparr>" False bare_world]
  from t [THEN conjunct1] g have n: "get_selected_game (bare_launcher\<lparr>games_sel := [0]\<rparr>) False = Inr None"
    by simp
  from t [THEN conjunct2, rule_format, OF n] g l n show ?thesis by simp
qed

subsection \<open>Changes of the tree\<close>

lemma file_at_stat: "file_at n q = (case stat n q of Some (Some c) \<Rightarrow> Some c | _ \<Rightarrow> None)"
  by (auto simp: file_at_def stat_def split: option.splits node.splits)

lemma dir_at_stat: "dir_at n q = (stat n q = Some None)"
  by (auto simp: dir_at_def stat_def split: option.splits node.splits)

lemma stat_alter_other:
  "\<not> prefix q q' \<Longrightarrow> map_option kind (lookup (alter f q n) q') = map_option kind (lookup n q')"
  and stat_alter_in_other:
  "\<not> prefix (x # xs) (y # ys) \<Longrightarrow>
     map_option kind (lookup_in (alter_in f x xs es) y ys) = map_option kind (lookup_in es y ys)"
proof (induction f q n and f x xs es arbitrary: q' and y ys rule: alter_alter_in.induct)
  case (1 f n)
  then show ?case by simp
next
  case (2 f x xs c)
  then show ?case by simp
next
  case (3 f x xs es)
  then show ?case by (cases q') auto
next
  case (4 f x xs)
  then show ?case by (auto split: option.splits)
next
  case (5 f x xs n t es)
  then show ?case by (auto split: option.splits)
qed

lemma lookup_in_absent: "x \<notin> fst ` set es \<Longrightarrow> lookup_in es x xs = None"
  by (induction es) auto

lemma lookup_alter_at:
  "wf_node n \<Longrightarrow> q \<noteq> [] \<Longrightarrow> dir_at n (butlast q) \<Longrightarrow>
     lookup (alter f q n) (q @ r) = (case f (lookup n q) of None \<Rightarrow> None | Some t \<Rightarrow> lookup t r)"
  and lookup_alter_in_at:
  "distinct (map fst es) \<Longrightarrow> \<forall>e \<in> set es. wf_node (snd e) \<Longrightarrow> dir_at (Dir es) (butlast (x # xs)) \<Longrightarrow>
     lookup_in (alter_in f x xs es) x (xs @ r)
       = (case f (lookup_in es x xs) of None \<Rightarrow> None | Some t \<Rightarrow> lookup t r)"
proof (induction f q n and f x xs es arbitrary: r and r rule: alter_alter_in.induct)
  case (1 f n)
  then show ?case by simp
next
  case (2 f x xs c)
  then show ?case by (cases xs) (auto simp: dir_at_def)
next
  case (3 f x xs es)
  then show ?case by auto
next
  case (4 f x xs)
  then show ?case by (cases xs) (auto simp: dir_at_def split: option.splits)
next
  case (5 f x xs n t es)
  show ?case
  proof (cases "n = x")
    case True
    show ?thesis
    proof (cases "xs = []")
      case xs: True
      from "5.prems"(1) True have "x \<notin> fst ` set es" by auto
      then have "lookup_in es x r = None" by (rule lookup_in_absent)
      with True xs show ?thesis by (auto split: option.splits)
    next
      case xs: False
      from "5.prems" True xs have "wf_node t" "dir_at t (butlast xs)"
        by (auto simp: dir_at_def)
      with "5.IH"(1)[OF True xs] xs have
        "lookup (alter f xs t) (xs @ r) = (case f (lookup t xs) of None \<Rightarrow> None | Some t \<Rightarrow> lookup t r)"
        by simp
      with True xs show ?thesis by simp
    qed
  next
    case False
    from "5.prems" False have "distinct (map fst es)" "\<forall>e \<in> set es. wf_node (snd e)"
      "dir_at (Dir es) (butlast (x # xs))"
      by (auto simp: dir_at_def split: if_splits)
    from "5.IH"(2)[OF False this] False show ?thesis by simp
  qed
qed

lemma stat_simps [simp]:
  "stat n [] = Some (kind n)"
  "stat (File c) (x # xs) = None"
  "stat (Dir es) (x # xs) = stat_in es x xs"
  "stat_in [] x xs = None"
  "stat_in ((m, t) # es) x xs = (if m = x then stat t xs else stat_in es x xs)"
  by (simp_all add: stat_def stat_in_def)

lemma stat_fresh_dirs: "stat (fresh_dirs xs) q = (if prefix q xs then Some None else None)"
proof (induction xs arbitrary: q)
  case Nil
  then show ?case by (cases q) simp_all
next
  case (Cons x xs)
  then show ?case by (cases q) simp_all
qed

lemma stat_mkdirs:
  "mkdirs q n = Inr r \<Longrightarrow>
     stat r q' = (case stat n q' of None \<Rightarrow> if prefix q' q then Some None else None | Some k \<Rightarrow> Some k)"
  and stat_mkdirs_in:
  "mkdirs_in x xs es = Inr es' \<Longrightarrow>
     stat_in es' y ys =
       (case stat_in es y ys of
          None \<Rightarrow> if prefix (y # ys) (x # xs) then Some None else None
        | Some k \<Rightarrow> Some k)"
proof (induction q n and x xs es arbitrary: r q' and es' y ys rule: mkdirs_mkdirs_in.induct)
  case (1 es)
  then show ?case by (cases q') (simp_all split: option.splits)
next
  case (2 c)
  then show ?case by simp
next
  case (3 x xs c)
  then show ?case by simp
next
  case (4 x xs es)
  then obtain es' where e: "mkdirs_in x xs es = Inr es'" "r = Dir es'"
    by (auto split: sum.splits)
  show ?case
  proof (cases q')
    case Nil
    with e show ?thesis by simp
  next
    case (Cons y ys)
    with e "4.IH"[OF e(1), of y ys] show ?thesis by (auto split: option.splits)
  qed
next
  case (5 x xs)
  then have "es' = [(x, fresh_dirs xs)]" by simp
  then show ?case by (simp add: stat_fresh_dirs)
next
  case (6 x xs n t es)
  show ?case
  proof (cases "n = x")
    case True
    with "6.prems" obtain t' where t': "mkdirs xs t = Inr t'" "es' = (n, t') # es"
      by (auto split: sum.splits)
    from "6.IH"(1)[OF True t'(1), of ys] True t'(2) show ?thesis
      by (simp split: option.splits)
  next
    case False
    with "6.prems" obtain es2 where e2: "mkdirs_in x xs es = Inr es2" "es' = (n, t) # es2"
      by (auto split: sum.splits)
    from "6.IH"(2)[OF False e2(1), of y ys] False e2(2) show ?thesis
      by (simp split: option.splits)
  qed
qed

lemma mkdirs_dir:
  "mkdirs q n = Inr r \<Longrightarrow> stat r q = Some None"
  and mkdirs_in_dir:
  "mkdirs_in x xs es = Inr es' \<Longrightarrow> stat_in es' x xs = Some None"
proof (induction q n and x xs es arbitrary: r and es' rule: mkdirs_mkdirs_in.induct)
  case (5 x xs)
  then have "es' = [(x, fresh_dirs xs)]" by simp
  then show ?case by (simp add: stat_fresh_dirs)
qed (auto split: sum.splits if_splits)

lemma wf_fresh_dirs: "wf_node (fresh_dirs xs)"
  by (induction xs) auto

lemma wf_mkdirs:
  "wf_node n \<Longrightarrow> mkdirs q n = Inr r \<Longrightarrow> wf_node r"
  and wf_mkdirs_in:
  "distinct (map fst es) \<Longrightarrow> \<forall>e \<in> set es. wf_node (snd e) \<Longrightarrow> mkdirs_in x xs es = Inr es' \<Longrightarrow>
     distinct (map fst es') \<and> (\<forall>e \<in> set es'. wf_node (snd e)) \<and> fst ` set es' = insert x (fst ` set es)"
proof (induction q n and x xs es arbitrary: r and es' rule: mkdirs_mkdirs_in.induct)
  case (4 x xs es)
  then show ?case by (auto split: sum.splits)
next
  case (5 x xs)
  then show ?case by (auto simp: wf_fresh_dirs)
next
  case (6 x xs n t es)
  show ?case
  proof (cases "n = x")
    case True
    with "6.prems" obtain t' where t': "mkdirs xs t = Inr t'" "es' = (n, t') # es"
      by (auto split: sum.splits)
    from "6.prems" have "wf_node t" by simp
    from "6.IH"(1)[OF True this t'(1)] "6.prems" t'(2) True show ?thesis by auto
  next
    case False
    with "6.prems" obtain es2 where e2: "mkdirs_in x xs es = Inr es2" "es' = (n, t) # es2"
      by (auto split: sum.splits)
    from "6.prems" have "distinct (map fst es)" "\<forall>e \<in> set es. wf_node (snd e)" by simp_all
    from "6.IH"(2)[OF False this e2(1)] "6.prems" e2(2) False show ?thesis by auto
  qed
qed auto

lemma file_at_eq_stat: "file_at n q = (case stat n q of Some (Some c) \<Rightarrow> Some c | _ \<Rightarrow> None)"
  by (auto simp: file_at_def stat_def split: option.splits node.splits)

lemma not_prefix_butlast:
  assumes "d \<noteq> []"
  shows "\<not> prefix d (butlast d)"
proof
  assume "prefix d (butlast d)"
  then have "length d \<le> length (butlast d)" by (rule prefix_length_le)
  then have "length d \<le> length d - 1" by (simp only: length_butlast)
  moreover from assms have "0 < length d" by simp
  ultimately show False by arith
qed

lemma stat_fileD: "stat n q = Some (Some c) \<Longrightarrow> lookup n q = Some (File c)"
  by (cases "lookup n q"; cases "the (lookup n q)") (auto simp: stat_def)

lemma stat_alter_other': "\<not> prefix q q' \<Longrightarrow> stat (alter f q n) q' = stat n q'"
  unfolding stat_def by (rule stat_alter_other)

lemma file_at_mkdirs: "mkdirs q n = Inr r \<Longrightarrow> file_at r q' = file_at n q'"
  by (auto simp: file_at_eq_stat stat_mkdirs split: option.splits)

lemma lookup_below_nondir:
  "\<not> dir_at n q \<Longrightarrow> r \<noteq> [] \<Longrightarrow> lookup n (q @ r) = None"
  by (cases r) (auto simp: lookup_append dir_at_def split: option.splits node.splits)

lemma lookup_parent_dir:
  assumes "lookup n q = Some t" "q \<noteq> []"
  shows "dir_at n (butlast q)"
proof -
  from assms(2) have q: "q = butlast q @ [last q]" by simp
  from assms(1) have "lookup n (butlast q @ [last q]) = Some t" using q by simp
  then show ?thesis
    by (auto simp: lookup_append dir_at_def split: option.splits node.splits)
qed

lemma lookup_below_file: "lookup n q = Some (File c) \<Longrightarrow> lookup n (q @ r) = (if r = [] then Some (File c) else None)"
  by (cases r) (auto simp: lookup_append)

lemma stat_in_alter_top:
  "stat_in (alter_in (\<lambda>t. Some v) n [] dst) y ys = (if y = n then stat v ys else stat_in dst y ys)"
  by (induction dst) auto

lemma stat_in_top:
  "stat_in dst n ys = (case lookup_in dst n [] of None \<Rightarrow> None | Some t \<Rightarrow> stat t ys)"
  using lookup_in_append[of dst n "[]" ys] by (simp add: stat_in_def stat_def split: option.splits)

lemma stat_in_absent: "n \<notin> fst ` set es \<Longrightarrow> stat_in es n ys = None"
  by (simp add: stat_in_def lookup_in_absent)

lemma stat_append: "stat n (xs @ ys) = (case lookup n xs of None \<Rightarrow> None | Some m \<Rightarrow> stat m ys)"
  by (simp add: stat_def lookup_append split: option.splits)

lemma wf_alter:
  "wf_node n \<Longrightarrow> \<forall>t t'. f t = Some t' \<longrightarrow> wf_node t' \<Longrightarrow> wf_node (alter f q n)"
  and wf_alter_in:
  "distinct (map fst es) \<Longrightarrow> \<forall>e \<in> set es. wf_node (snd e) \<Longrightarrow> \<forall>t t'. f t = Some t' \<longrightarrow> wf_node t' \<Longrightarrow>
     distinct (map fst (alter_in f x xs es)) \<and> (\<forall>e \<in> set (alter_in f x xs es). wf_node (snd e))
     \<and> fst ` set (alter_in f x xs es) \<subseteq> insert x (fst ` set es)"
proof (induction f q n and f x xs es rule: alter_alter_in.induct)
  case (1 f n)
  then show ?case by simp
next
  case (2 f x xs c)
  then show ?case by simp
next
  case (3 f x xs es)
  from "3.prems" have a: "distinct (map fst es)" and b: "\<forall>e \<in> set es. wf_node (snd e)" by simp_all
  have "distinct (map fst (alter_in f x xs es)) \<and> (\<forall>e \<in> set (alter_in f x xs es). wf_node (snd e))"
    using "3.IH"[OF a b "3.prems"(2)] by blast
  then show ?case by simp
next
  case (4 f x xs)
  have "alter_in f x xs [] = [] \<or> (\<exists>t'. f None = Some t' \<and> alter_in f x xs [] = [(x, t')])"
    by (cases "f None") simp_all
  then show ?case
  proof
    assume "alter_in f x xs [] = []"
    then show ?thesis by (simp only: list.map distinct.simps list.set image_empty empty_subsetI ball_empty simp_thms)
  next
    assume "\<exists>t'. f None = Some t' \<and> alter_in f x xs [] = [(x, t')]"
    then obtain t' where t: "f None = Some t'" "alter_in f x xs [] = [(x, t')]" by blast
    with "4.prems"(3) have "wf_node t'" by blast
    with t(2) show ?thesis by (simp del: alter.simps)
  qed
next
  case (5 f x xs n t es)
  show ?case
  proof (cases "n = x")
    case True
    show ?thesis
    proof (cases "xs = []")
      case e: True
      show ?thesis
      proof (cases "f (Some t)")
        case None
        with True e "5.prems" show ?thesis by auto
      next
        case (Some t')
        with "5.prems"(3) have "wf_node t'" by blast
        with Some True e "5.prems"(1,2) show ?thesis by auto
      qed
    next
      case ne: False
      from "5.prems" have "wf_node t" by simp
      from "5.IH"(1)[OF True ne this "5.prems"(3)] True ne "5.prems"(1,2) show ?thesis by auto
    qed
  next
    case False
    from "5.prems" have a: "distinct (map fst es)" and b: "\<forall>e \<in> set es. wf_node (snd e)" by simp_all
    from "5.IH"(2)[OF False a b "5.prems"(3)] False "5.prems"(1,2) show ?thesis by auto
  qed
qed

subsection \<open>Starting processes\<close>

lemma popen_cases:
  "subprocess_Popen w [p] d = (None, w\<lparr>spawned := spawned w @ [([p], d)]\<rparr>)
   \<or> (\<exists>e. subprocess_Popen w [p] d = (Some e, w))"
  by (simp add: subprocess_Popen_def)

lemma popen_ok:
  "os_path_isfile w p \<Longrightarrow> \<not> exec_fault w (resolve w p) \<Longrightarrow> os_path_isdir w d
   \<Longrightarrow> subprocess_Popen w [p] d = (None, w\<lparr>spawned := spawned w @ [([p], d)]\<rparr>)"
  by (simp add: subprocess_Popen_def)

lemma isfile_exists: "os_path_isfile w p \<Longrightarrow> os_path_exists w p"
  by (auto simp: os_path_isfile_def os_path_exists_def split: option.splits)

lemma launch_modder_missing:
  "\<not> os_path_exists w (modder_path st) \<Longrightarrow>
   launch_modder st w = (None, showerror ''Launch error''
                    (MODDER_EXE @ '' not found in launcher folder:'' @ nl @ render (platform w) (modder_path st)) st, w)"
  by (simp add: launch_modder_def)

lemma launch_modder_present:
  assumes "os_path_exists w (modder_path st)"
  shows "launch_modder st w = (None, update_modder_label True st, w\<lparr>spawned := spawned w @ [([modder_path st], base_dir st)]\<rparr>)
         \<or> (\<exists>e. launch_modder st w = (None, showerror ''Launch error'' (''Failed to launch modder:'' @ nl @ exn_text e) st, w))"
  using assms popen_cases[of w "modder_path st" "base_dir st"]
  by (auto simp: launch_modder_def try_catch_def)

lemma launch_modder_ok:
  assumes "os_path_isfile w (modder_path st)" "\<not> exec_fault w (resolve w (modder_path st))" "os_path_isdir w (base_dir st)"
  shows "launch_modder st w = (None, update_modder_label True st, w\<lparr>spawned := spawned w @ [([modder_path st], base_dir st)]\<rparr>)"
  using assms by (simp add: launch_modder_def try_catch_def popen_ok isfile_exists)

lemma get_selected_game_eq:
  "get_selected_game st False = Inr (selected_path st w False)"
  by (simp add: get_selected_game_def selected_path_def Let_def py_index_hd) (simp add: py_index_def)

lemma play_unselected:
  assumes "selected_path st w fm = None"
  shows "snd (snd (play_selected_game st w fm)) = w"
proof (cases fm)
  case True
  with assms show ?thesis
    by (auto simp: selected_path_def play_selected_game_def split: if_splits)
next
  case False
  with assms get_selected_game_eq[of st w] have "get_selected_game st False = Inr None" by simp
  with False show ?thesis by (simp add: play_selected_game_def)
qed

lemma play_selected:
  assumes "selected_path st w fm = Some p"
  shows "play_selected_game st w fm = (None, st, w\<lparr>spawned := spawned w @ [([p], os_path_dirname p)]\<rparr>)
         \<or> snd (snd (play_selected_game st w fm)) = w"
proof (cases fm)
  case True
  with assms have "modded_sel st \<noteq> []" "resolve_row st w (lb_get (modded_listbox st) (hd (modded_sel st))) = Some p"
    by (auto simp: selected_path_def split: if_splits)
  then show ?thesis using True popen_cases[of w p "os_path_dirname p"]
    by (auto simp: play_selected_game_def try_catch_def)
next
  case False
  with assms get_selected_game_eq[of st w] have "get_selected_game st False = Inr (Some p)" by simp
  then show ?thesis using False popen_cases[of w p "os_path_dirname p"]
    by (auto simp: play_selected_game_def try_catch_def)
qed

lemma falsy_file: "os_path_isfile w p \<Longrightarrow> is_abs p \<Longrightarrow> \<not> falsy (Some p)"
  by (simp add: falsy_def empty_text_def)

lemma play_selected_ok:
  assumes "selected_path st w fm = Some p" "is_abs p" "os_path_isfile w p" "\<not> exec_fault w (resolve w p)"
    "os_path_isdir w (os_path_dirname p)"
  shows "play_selected_game st w fm = (None, st, w\<lparr>spawned := spawned w @ [([p], os_path_dirname p)]\<rparr>)"
proof (cases fm)
  case True
  with assms have "modded_sel st \<noteq> []" "resolve_row st w (lb_get (modded_listbox st) (hd (modded_sel st))) = Some p"
    by (auto simp: selected_path_def split: if_splits)
  then show ?thesis using True assms
    by (simp add: play_selected_game_def try_catch_def popen_ok isfile_exists falsy_file)
next
  case False
  with assms get_selected_game_eq[of st w] have "get_selected_game st False = Inr (Some p)" by simp
  then show ?thesis using False assms
    by (simp add: play_selected_game_def try_catch_def popen_ok isfile_exists falsy_file)
qed

text \<open>
  Claim C3. \<^verbatim>\<open>launch_modder\<close> starts \<^verbatim>\<open>base_dir/FlowlabModdingUtility.exe\<close> with
  \<^verbatim>\<open>base_dir\<close> as working directory, and only when that path exists: otherwise it
  shows an error and starts nothing. \<^verbatim>\<open>play_selected_game\<close> starts the game it
  resolved, with the directory that contains it as working directory, or starts nothing.
  In both, the process is started whenever the executable is a file the system agrees to
  run and the working directory exists.
\<close>

theorem spawn_working_directories:
  "modder_path st = os_path_join (base_dir st) (Path False [''FlowlabModdingUtility.exe''])
   \<and> (\<not> os_path_exists w (modder_path st) \<longrightarrow>
        launch_modder st w
          = (None, showerror ''Launch error''
                     (MODDER_EXE @ '' not found in launcher folder:'' @ nl @ render (platform w) (modder_path st)) st, w))
   \<and> (os_path_exists w (modder_path st) \<longrightarrow>
        launch_modder st w
          = (None, update_modder_label True st,
             w\<lparr>spawned := spawned w @ [([modder_path st], base_dir st)]\<rparr>)
        \<or> (\<exists>e. launch_modder st w
                 = (None, showerror ''Launch error'' (''Failed to launch modder:'' @ nl @ exn_text e) st, w)))
   \<and> (os_path_isfile w (modder_path st) \<and> \<not> exec_fault w (resolve w (modder_path st))
        \<and> os_path_isdir w (base_dir st) \<longrightarrow>
        launch_modder st w
          = (None, update_modder_label True st,
             w\<lparr>spawned := spawned w @ [([modder_path st], base_dir st)]\<rparr>))
   \<and> (selected_path st w from_modded = None \<longrightarrow>
        snd (snd (play_selected_game st w from_modded)) = w)
   \<and> (\<forall>p. selected_path st w from_modded = Some p \<longrightarrow>
        play_selected_game st w from_modded
          = (None, st, w\<lparr>spawned := spawned w @ [([p], os_path_dirname p)]\<rparr>)
        \<or> snd (snd (play_selected_game st w from_modded)) = w)
   \<and> (\<forall>p. selected_path st w from_modded = Some p \<and> is_abs p \<and> os_path_isfile w p
            \<and> \<not> exec_fault w (resolve w p) \<and> os_path_isdir w (os_path_dirname p) \<longrightarrow>
        play_selected_game st w from_modded
          = (None, st, w\<lparr>spawned := spawned w @ [([p], os_path_dirname p)]\<rparr>))"
proof (intro conjI allI impI)
  show "modder_path st = os_path_join (base_dir st) (Path False [''FlowlabModdingUtility.exe''])"
    by (simp add: modder_path_def path_of_name_def MODDER_EXE_def)
next
  assume "\<not> os_path_exists w (modder_path st)"
  then show "launch_modder st w
          = (None, showerror ''Launch error''
                     (MODDER_EXE @ '' not found in launcher folder:'' @ nl @ render (platform w) (modder_path st)) st, w)"
    by (rule launch_modder_missing)
next
  assume "os_path_exists w (modder_path st)"
  then show "launch_modder st w
          = (None, update_modder_label True st,
             w\<lparr>spawned := spawned w @ [([modder_path st], base_dir st)]\<rparr>)
        \<or> (\<exists>e. launch_modder st w
                 = (None, showerror ''Launch error'' (''Failed to launch modder:'' @ nl @ exn_text e) st, w))"
    by (rule launch_modder_present)
next
  assume "os_path_isfile w (modder_path st) \<and> \<not> exec_fault w (resolve w (modder_path st))
        \<and> os_path_isdir w (base_dir st)"
  then show "launch_modder st w
          = (None, update_modder_label True st,
             w\<lparr>spawned := spawned w @ [([modder_path st], base_dir st)]\<rparr>)"
    by (simp add: launch_modder_ok)
next
  assume "selected_path st w from_modded = None"
  then show "snd (snd (play_selected_game st w from_modded)) = w"
    by (rule play_unselected)
next
  fix p
  assume "selected_path st w from_modded = Some p"
  then show "play_selected_game st w from_modded
          = (None, st, w\<lparr>spawned := spawned w @ [([p], os_path_dirname p)]\<rparr>)
        \<or> snd (snd (play_selected_game st w from_modded)) = w"
    by (rule play_selected)
next
  fix p
  assume "selected_path st w from_modded = Some p \<and> is_abs p \<and> os_path_isfile w p
            \<and> \<not> exec_fault w (resolve w p) \<and> os_path_isdir w (os_path_dirname p)"
  then show "play_selected_game st w from_modded
          = (None, st, w\<lparr>spawned := spawned w @ [([p], os_path_dirname p)]\<rparr>)"
    by (simp add: play_selected_ok)
qed

text \<open>
  On the example: the modder and the game of the subfolder are started in their own
  directories; without a modder in the folder nothing is started.
\<close>

theorem spawn_working_directories_witness:
  "os_path_isfile example_world (modder_path scanned_launcher)
   \<and> spawned (snd (snd (launch_modder scanned_launcher example_world)))
       = [([Path True [''app'', ''FlowlabModdingUtility.exe'']], Path True [''app''])]
   \<and> \<not> os_path_exists bare_world (modder_path bare_launcher)
   \<and> spawned (snd (snd (launch_modder bare_launcher bare_world))) = []
   \<and> selected_path (scanned_launcher\<lparr>games_sel := [1]\<rparr>) example_world False
       = Some (Path True [''app'', ''games'', ''Sub'', ''A.exe''])
   \<and> spawned (snd (snd (play_selected_game (scanned_launcher\<lparr>games_sel := [1]\<rparr>) example_world False)))
       = [([Path True [''app'', ''games'', ''Sub'', ''A.exe'']], Path True [''app'', ''games'', ''Sub''])]"
proof -
  let ?st = "scanned_launcher\<lparr>games_sel := [1]\<rparr>"
  let ?p = "Path True [''app'', ''games'', ''Sub'', ''A.exe'']"
  have m: "modder_path scanned_launcher = Path True [''app'', ''FlowlabModdingUtility.exe'']"
    by code_simp
  have b: "base_dir scanned_launcher = Path True [''app'']" by code_simp
  have h1: "os_path_isfile example_world (modder_path scanned_launcher)
            \<and> \<not> exec_fault example_world (resolve example_world (modder_path scanned_launcher))
            \<and> os_path_isdir example_world (base_dir scanned_launcher)"
    by code_simp
  have h2: "\<not> os_path_exists bare_world (modder_path bare_launcher)" by code_simp
  have h3: "selected_path ?st example_world False = Some ?p \<and> is_abs ?p \<and> os_path_isfile example_world ?p
            \<and> \<not> exec_fault example_world (resolve example_world ?p)
            \<and> os_path_isdir example_world (os_path_dirname ?p)"
    by code_simp
  have s: "spawned example_world = []" "spawned bare_world = []" by code_simp+
  have d: "os_path_dirname ?p = Path True [''app'', ''games'', ''Sub'']" by code_simp
  note t1 = spawn_working_directories [of scanned_launcher example_world False]
  note t2 = spawn_working_directories [of bare_launcher bare_world False]
  note t3 = spawn_working_directories [of ?st example_world False]
  have r1: "spawned (snd (snd (launch_modder scanned_launcher example_world)))
       = [([Path True [''app'', ''FlowlabModdingUtility.exe'']], Path True [''app''])]"
    using t1 h1 m b s by simp
  have r2: "spawned (snd (snd (launch_modder bare_launcher bare_world))) = []"
    using t2 h2 s by simp
  have r3: "spawned (snd (snd (play_selected_game ?st example_world False)))
       = [([?p], Path True [''app'', ''games'', ''Sub''])]"
    using t3 h3 s d by simp
  from h1 h2 h3 r1 r2 r3 show ?thesis by simp
qed

subsection \<open>Deleting\<close>

lemma remove_frame:
  assumes wf: "wf_node n" and f: "lookup n q = Some (File c)" and ne: "q \<noteq> []"
  shows "file_at (alter (\<lambda>t. None) q n) q' = (if q' = q then None else file_at n q')"
    and "dir_at (alter (\<lambda>t. None) q n) q' = dir_at n q'"
proof -
  have d: "dir_at n (butlast q)" using f ne by (rule lookup_parent_dir)
  show "file_at (alter (\<lambda>t. None) q n) q' = (if q' = q then None else file_at n q')"
  proof (cases "prefix q q'")
    case True
    then obtain r where r: "q' = q @ r" by (auto simp: prefix_def)
    have "lookup (alter (\<lambda>t. None) q n) (q @ r) = None"
      using lookup_alter_at[OF wf ne d, of "\<lambda>t. None" r] by simp
    moreover have "r \<noteq> [] \<Longrightarrow> lookup n (q @ r) = None"
      using lookup_below_file[OF f, of r] by simp
    ultimately show ?thesis using r by (auto simp: file_at_def)
  next
    case False
    then have "q' \<noteq> q" by auto
    with stat_alter_other[OF False, of "\<lambda>t. None" n] show ?thesis
      by (simp add: file_at_stat stat_def)
  qed
  show "dir_at (alter (\<lambda>t. None) q n) q' = dir_at n q'"
  proof (cases "prefix q q'")
    case True
    then obtain r where r: "q' = q @ r" by (auto simp: prefix_def)
    have "lookup (alter (\<lambda>t. None) q n) (q @ r) = None"
      using lookup_alter_at[OF wf ne d, of "\<lambda>t. None" r] by simp
    moreover have "lookup n (q @ r) = (if r = [] then Some (File c) else None)"
      using lookup_below_file[OF f, of r] by simp
    ultimately show ?thesis using r by (auto simp: dir_at_def)
  next
    case False
    with stat_alter_other[OF False, of "\<lambda>t. None" n] show ?thesis
      by (simp add: dir_at_stat stat_def)
  qed
qed

lemma os_remove_cases:
  "os_remove w p = (None, w\<lparr>root := alter (\<lambda>t. None) (resolve w p) (root w)\<rparr>)
     \<and> os_path_isfile w p \<and> \<not> io_fault w (resolve w p) \<and> resolve w p \<noteq> []
   \<or> (\<exists>e. os_remove w p = (Some e, w))"
  by (auto simp: os_remove_def os_path_isfile_def Let_def split: option.splits node.splits)

lemma os_remove_ok:
  "os_path_isfile w p \<Longrightarrow> \<not> io_fault w (resolve w p) \<Longrightarrow> resolve w p \<noteq> [] \<Longrightarrow>
   os_remove w p = (None, w\<lparr>root := alter (\<lambda>t. None) (resolve w p) (root w)\<rparr>)"
  by (auto simp: os_remove_def os_path_isfile_def Let_def split: option.splits node.splits)

lemma delete_not_done:
  "\<not> confirm \<or> delete_target st w = None \<Longrightarrow> snd (snd (delete_selected_game st w confirm)) = w"
  by (auto simp: delete_selected_game_def delete_target_def Let_def falsy_def split: option.splits if_splits)

lemma delete_done:
  assumes "confirm" "delete_target st w = Some p"
  shows "delete_selected_game st w confirm
           = try_catch (case os_remove w p of
                          (Some e, w') \<Rightarrow> (Some e, st, w')
                        | (None, w') \<Rightarrow> (None, scan_games st w', w'))
                       (\<lambda>e st w. (None, showerror ''Delete error''
                                            (''Failed to delete:'' @ nl @ exn_text e) st, w))"
  using assms
  by (auto simp: delete_selected_game_def delete_target_def Let_def split: option.splits if_splits)

text \<open>
  Claim C7. \<^verbatim>\<open>delete_selected_game\<close> lets no exception escape. When the user
  declines, or no path is resolved, the world is left as it was. When the user confirms,
  every file other than the resolved one keeps its content, no file appears, and the
  directories are the same; when the resolved path is a file that the system lets go,
  it is gone afterwards and the launcher state is the one of a rescan of the new tree.
\<close>

theorem delete_selected_game_frame:
  assumes "wf_node (root w)"
  shows "fst (delete_selected_game st w confirm) = None
   \<and> (\<not> confirm \<or> delete_target st w = None \<longrightarrow> snd (snd (delete_selected_game st w confirm)) = w)
   \<and> (\<forall>p. confirm \<and> delete_target st w = Some p \<longrightarrow>
        (\<forall>q. q \<noteq> resolve w p \<longrightarrow>
              file_at (root (snd (snd (delete_selected_game st w confirm)))) q = file_at (root w) q)
        \<and> (\<forall>q. dir_at (root (snd (snd (delete_selected_game st w confirm)))) q = dir_at (root w) q)
        \<and> (os_path_isfile w p \<and> \<not> io_fault w (resolve w p) \<and> resolve w p \<noteq> [] \<longrightarrow>
              file_at (root (snd (snd (delete_selected_game st w confirm)))) (resolve w p) = None
              \<and> fst (snd (delete_selected_game st w confirm))
                  = scan_games st (snd (snd (delete_selected_game st w confirm)))))"
proof (intro conjI allI impI)
  show "fst (delete_selected_game st w confirm) = None"
    by (auto simp: delete_selected_game_def try_catch_def Let_def split: option.splits prod.splits)
next
  assume "\<not> confirm \<or> delete_target st w = None"
  then show "snd (snd (delete_selected_game st w confirm)) = w" by (rule delete_not_done)
next
  fix p q
  assume a: "confirm \<and> delete_target st w = Some p" and q: "q \<noteq> resolve w p"
  from a have d: "delete_selected_game st w confirm
           = try_catch (case os_remove w p of
                          (Some e, w') \<Rightarrow> (Some e, st, w')
                        | (None, w') \<Rightarrow> (None, scan_games st w', w'))
                       (\<lambda>e st w. (None, showerror ''Delete error''
                                            (''Failed to delete:'' @ nl @ exn_text e) st, w))"
    by (simp add: delete_done)
  from os_remove_cases[of w p]
  show "file_at (root (snd (snd (delete_selected_game st w confirm)))) q = file_at (root w) q"
  proof (elim disjE conjE exE)
    assume r: "os_remove w p = (None, w\<lparr>root := alter (\<lambda>t. None) (resolve w p) (root w)\<rparr>)"
      and f: "os_path_isfile w p" and ne: "resolve w p \<noteq> []"
    from f obtain c where "lookup (root w) (resolve w p) = Some (File c)"
      by (auto simp: os_path_isfile_def split: option.splits node.splits)
    from remove_frame(1)[OF assms this ne, of q] q r d show ?thesis
      by (simp add: try_catch_def)
  next
    fix e assume "os_remove w p = (Some e, w)"
    with d show ?thesis by (simp add: try_catch_def)
  qed
next
  fix p q
  assume a: "confirm \<and> delete_target st w = Some p"
  from a have d: "delete_selected_game st w confirm
           = try_catch (case os_remove w p of
                          (Some e, w') \<Rightarrow> (Some e, st, w')
                        | (None, w') \<Rightarrow> (None, scan_games st w', w'))
                       (\<lambda>e st w. (None, showerror ''Delete error''
                                            (''Failed to delete:'' @ nl @ exn_text e) st, w))"
    by (simp add: delete_done)
  from os_remove_cases[of w p]
  show "dir_at (root (snd (snd (delete_selected_game st w confirm)))) q = dir_at (root w) q"
  proof (elim disjE conjE exE)
    assume r: "os_remove w p = (None, w\<lparr>root := alter (\<lambda>t. None) (resolve w p) (root w)\<rparr>)"
      and f: "os_path_isfile w p" and ne: "resolve w p \<noteq> []"
    from f obtain c where "lookup (root w) (resolve w p) = Some (File c)"
      by (auto simp: os_path_isfile_def split: option.splits node.splits)
    from remove_frame(2)[OF assms this ne, of q] r d show ?thesis
      by (simp add: try_catch_def)
  next
    fix e assume "os_remove w p = (Some e, w)"
    with d show ?thesis by (simp add: try_catch_def)
  qed
next
  fix p
  assume a: "confirm \<and> delete_target st w = Some p"
    and b: "os_path_isfile w p \<and> \<not> io_fault w (resolve w p) \<and> resolve w p \<noteq> []"
  from a have d: "delete_selected_game st w confirm
           = try_catch (case os_remove w p of
                          (Some e, w') \<Rightarrow> (Some e, st, w')
                        | (None, w') \<Rightarrow> (None, scan_games st w', w'))
                       (\<lambda>e st w. (None, showerror ''Delete error''
                                            (''Failed to delete:'' @ nl @ exn_text e) st, w))"
    by (simp add: delete_done)
  from b have r: "os_remove w p = (None, w\<lparr>root := alter (\<lambda>t. None) (resolve w p) (root w)\<rparr>)"
    by (simp add: os_remove_ok)
  from b obtain c where c: "lookup (root w) (resolve w p) = Some (File c)"
    by (auto simp: os_path_isfile_def split: option.splits node.splits)
  from b have ne: "resolve w p \<noteq> []" by simp
  from remove_frame(1)[OF assms c ne, of "resolve w p"] r d
  show "file_at (root (snd (snd (delete_selected_game st w confirm)))) (resolve w p) = None"
    by (simp add: try_catch_def)
  from r d show "fst (snd (delete_selected_game st w confirm))
                  = scan_games st (snd (snd (delete_selected_game st w confirm)))"
    by (simp add: try_catch_def)
qed

text \<open>
  On the example: deleting the game of the subfolder leaves the other game as it was and
  the rescan lists it alone; declining leaves the world as it was.
\<close>

theorem delete_selected_game_frame_witness:
  "wf_node (root example_world)
   \<and> delete_target (scanned_launcher\<lparr>modded_sel := [1]\<rparr>) example_world
        = Some (Path True [''app'', ''games'', ''Sub'', ''A.exe''])
   \<and> file_at (root (snd (snd (delete_selected_game (scanned_launcher\<lparr>modded_sel := [1]\<rparr>) example_world True))))
        [''app'', ''games'', ''Sub'', ''A.exe''] = None
   \<and> file_at (root (snd (snd (delete_selected_game (scanned_launcher\<lparr>modded_sel := [1]\<rparr>) example_world True))))
        [''app'', ''games'', ''b.EXE''] = Some ''game b''
   \<and> games (fst (snd (delete_selected_game (scanned_launcher\<lparr>modded_sel := [1]\<rparr>) example_world True)))
        = [Path True [''app'', ''games'', ''b.EXE'']]
   \<and> snd (snd (delete_selected_game (scanned_launcher\<lparr>modded_sel := [1]\<rparr>) example_world False)) = example_world"
proof -
  let ?st = "scanned_launcher\<lparr>modded_sel := [1]\<rparr>"
  let ?p = "Path True [''app'', ''games'', ''Sub'', ''A.exe'']"
  have wf: "wf_node (root example_world)" by code_simp
  have t: "delete_target ?st example_world = Some ?p" by code_simp
  have r: "resolve example_world ?p = [''app'', ''games'', ''Sub'', ''A.exe'']" by code_simp
  have f: "os_path_isfile example_world ?p \<and> \<not> io_fault example_world (resolve example_world ?p)
           \<and> resolve example_world ?p \<noteq> []" by code_simp
  have b: "file_at (root example_world) [''app'', ''games'', ''b.EXE''] = Some ''game b''" by code_simp
  have ne: "[''app'', ''games'', ''b.EXE''] \<noteq> resolve example_world ?p" by code_simp
  note th = delete_selected_game_frame [OF wf, of ?st]
  from th [of True, THEN conjunct2, THEN conjunct2, rule_format, of ?p] t
  have fr: "(\<forall>q. q \<noteq> resolve example_world ?p \<longrightarrow>
              file_at (root (snd (snd (delete_selected_game ?st example_world True)))) q = file_at (root example_world) q)"
    and ok: "os_path_isfile example_world ?p \<and> \<not> io_fault example_world (resolve example_world ?p) \<and> resolve example_world ?p \<noteq> [] \<longrightarrow>
              file_at (root (snd (snd (delete_selected_game ?st example_world True)))) (resolve example_world ?p) = None
              \<and> fst (snd (delete_selected_game ?st example_world True))
                  = scan_games ?st (snd (snd (delete_selected_game ?st example_world True)))"
    by simp_all
  from fr [rule_format, OF ne] b
  have c2: "file_at (root (snd (snd (delete_selected_game ?st example_world True)))) [''app'', ''games'', ''b.EXE''] = Some ''game b''"
    by simp
  from ok f r
  have c1: "file_at (root (snd (snd (delete_selected_game ?st example_world True)))) [''app'', ''games'', ''Sub'', ''A.exe''] = None"
    by simp
  have c3: "games (fst (snd (delete_selected_game ?st example_world True))) = [Path True [''app'', ''games'', ''b.EXE'']]"
    by code_simp
  from th [of False, THEN conjunct2, THEN conjunct1]
  have c4: "snd (snd (delete_selected_game ?st example_world False)) = example_world" by simp
  from wf t c1 c2 c3 c4 show ?thesis by simp
qed

subsection \<open>Renaming\<close>

lemma split_where_none: "\<forall>c \<in> set s. \<not> P c \<Longrightarrow> split_where P s = [s]"
  by (induction s) auto

lemma nt_splitroot_plain:
  assumes "plain_name Windows n"
  shows "nt_splitroot n = ([], [], n)"
proof -
  from assms have ne: "n \<noteq> []" and ns: "\<forall>c \<in> set n. \<not> is_sep Windows c" and nc: "CHR '':'' \<notin> set n"
    by (simp_all add: plain_name_def)
  from ne have "n ! 0 \<in> set n" by simp
  with ns have a: "\<not> is_sep Windows (n ! 0)" by blast
  have b: "n ! 1 \<noteq> CHR '':''" if "2 \<le> length n"
  proof -
    from that have "n ! 1 \<in> set n" by simp
    with nc show ?thesis by metis
  qed
  from a b show ?thesis by (auto simp: nt_splitroot_def)
qed

lemma path_of_text_name: "plain_name os n \<Longrightarrow> path_of_text os n = Path False [n]"
proof (cases os)
  case Posix
  assume "plain_name os n"
  with Posix show ?thesis
    by (cases n) (auto simp: path_of_text_def plain_name_def split_where_none is_sep_def)
next
  case Windows
  assume p: "plain_name os n"
  with Windows have "nt_splitroot n = ([], [], n)" by (simp add: nt_splitroot_plain)
  with p Windows show ?thesis
    by (simp add: path_of_text_def plain_name_def split_where_none)
qed

lemma rename_same_directory:
  "plain_name os n \<Longrightarrow>
   os_path_dirname (os_path_join (os_path_dirname p) (path_of_text os n)) = os_path_dirname p"
  by (simp add: path_of_text_name os_path_join_def os_path_dirname_def)

lemma resolve_nonempty: "parts p \<noteq> [] \<Longrightarrow> resolve w p \<noteq> []"
  by (cases "platform w") (auto simp: resolve_def Let_def)

lemma resolve_dirname:
  "parts dst \<noteq> [] \<Longrightarrow> resolve w (os_path_dirname dst) = butlast (resolve w dst)"
  by (cases "platform w") (simp_all add: resolve_def os_path_dirname_def butlast_append Let_def)

lemma resolve_sibling:
  assumes "plain_name (platform w) n" "parts p \<noteq> []"
  shows "resolve w (os_path_join (os_path_dirname p) (path_of_text (platform w) n))
           = butlast (resolve w p) @ [n]"
  using assms by (simp add: path_of_text_name resolve_join resolve_dirname)

lemma rename_rejected:
  "answer = None \<or> answer = Some [] \<or> (\<exists>n. answer = Some n \<and> \<not> endswith (lower n) ''.exe'')
   \<Longrightarrow> snd (snd (rename_selected_game st w answer)) = w"
  by (auto simp: rename_selected_game_def Let_def split: option.splits)

lemma rename_unresolved:
  "rename_target st w = None \<Longrightarrow> snd (snd (rename_selected_game st w answer)) = w"
  by (auto simp: rename_selected_game_def rename_target_def Let_def split: option.splits if_splits)

lemma rename_accepted:
  assumes "rename_target st w = Some p" "n \<noteq> []" "endswith (lower n) ''.exe''"
  shows "rename_selected_game st w (Some n)
          = try_catch
              (case os_rename w p (os_path_join (os_path_dirname p) (path_of_text (platform w) n)) of
                 (Some e, w') \<Rightarrow> (Some e, st, w')
               | (None, w') \<Rightarrow> (None, scan_games st w', w'))
              (\<lambda>e st w. (None, showerror ''Rename error'' (''Failed to rename:'' @ nl @ exn_text e) st, w))"
  using assms
  by (auto simp: rename_selected_game_def rename_target_def Let_def split: option.splits if_splits)

lemma try_catch_world:
  "snd (snd (try_catch (case r of (Some e, w') \<Rightarrow> (Some e, st, w') | (None, w') \<Rightarrow> (None, g w', w'))
                       (\<lambda>e st w. (None, h e st, w)))) = snd r"
  by (cases r) (auto simp: try_catch_def split: option.splits)

lemma os_rename_moves:
  assumes wf: "wf_node (root w)"
    and c: "lookup (root w) s = Some (File c)"
    and s: "resolve w src = s" and d: "resolve w dst = d"
    and sib: "d = butlast s @ [n]" and sne: "s \<noteq> []"
    and free: "lookup (root w) d = None"
    and nf: "\<not> io_fault w s" "\<not> io_fault w d" and nv: "\<not> off_volume w d"
  shows "fst (os_rename w src dst) = None"
    and "file_at (root (snd (os_rename w src dst))) d = Some c"
    and "file_at (root (snd (os_rename w src dst))) s = None"
proof -
  let ?r1 = "alter (\<lambda>t. None) s (root w)"
  let ?r2 = "alter (\<lambda>t. Some (File c)) d ?r1"
  from c free have sd: "s \<noteq> d" by auto
  from sib have dne: "d \<noteq> []" by simp
  from sib sne have len: "length d = length s" by simp
  have np: "\<not> prefix s d"
  proof
    assume "prefix s d"
    with len sd show False by (auto simp: prefix_def)
  qed
  have np': "\<not> prefix d s"
  proof
    assume "prefix d s"
    with len sd show False by (auto simp: prefix_def)
  qed
  have pd: "dir_at (root w) (butlast s)" using c sne by (rule lookup_parent_dir)
  from sib have bd: "butlast d = butlast s" by simp
  have r: "os_rename w src dst = (None, w\<lparr>root := ?r2\<rparr>)"
    using c free nf nv sd sne dne np pd bd
    by (simp add: os_rename_def s d Let_def rename_onto_def)
  from r show "fst (os_rename w src dst) = None" by simp
  have wf1: "wf_node ?r1" using wf by (rule wf_alter) simp
  have pd1: "dir_at ?r1 (butlast d)"
    using remove_frame(2)[OF wf c sne, of "butlast s"] pd bd by simp
  have "lookup ?r2 (d @ []) = Some (File c)"
    using lookup_alter_at[OF wf1 dne pd1, of "\<lambda>t. Some (File c)" "[]"] by simp
  with r show "file_at (root (snd (os_rename w src dst))) d = Some c"
    by (simp add: file_at_def)
  have "file_at ?r2 s = file_at ?r1 s"
    using stat_alter_other'[OF np', of "\<lambda>t. Some (File c)" ?r1] by (simp add: file_at_eq_stat)
  also have "\<dots> = None" using remove_frame(1)[OF wf c sne, of s] by simp
  finally show "file_at (root (snd (os_rename w src dst))) s = None" using r by simp
qed

text \<open>
  Claim C9, as amended. \<^verbatim>\<open>rename_selected_game\<close> leaves the world as it was when
  the dialog is cancelled, the name is empty or the lowered name does not end with
  \<^verbatim>\<open>.exe\<close>; whenever it changes the world, the name was accepted and the world is the
  one that \<^verbatim>\<open>os.rename\<close> leaves for the resolved game and
  \<^verbatim>\<open>os.path.join(os.path.dirname(full), new_name)\<close>. On either platform that new
  path lies in the directory of the game when the name is a bare file name: it holds no
  separator of the platform and, on Windows, no colon. With such a name that is free in
  the directory, and a game that the system lets go, the file is afterwards under the
  new name, no longer under the old one, and the launcher has rescanned.
\<close>

theorem rename_selected_game_guard:
  assumes "wf_node (root w)"
  shows
  "(answer = None \<or> answer = Some [] \<or> (\<exists>n. answer = Some n \<and> \<not> endswith (lower n) ''.exe'')
      \<longrightarrow> snd (snd (rename_selected_game st w answer)) = w)
   \<and> (snd (snd (rename_selected_game st w answer)) = w
       \<or> (\<exists>p n. answer = Some n \<and> n \<noteq> [] \<and> endswith (lower n) ''.exe'' \<and> rename_target st w = Some p
               \<and> snd (snd (rename_selected_game st w answer))
                   = snd (os_rename w p (os_path_join (os_path_dirname p) (path_of_text (platform w) n)))))
   \<and> (\<forall>os n p. plain_name os n \<longrightarrow>
         os_path_dirname (os_path_join (os_path_dirname p) (path_of_text os n)) = os_path_dirname p)
   \<and> (\<forall>p n c. rename_target st w = Some p \<and> parts p \<noteq> [] \<and> plain_name (platform w) n
               \<and> endswith (lower n) ''.exe''
               \<and> file_at (root w) (resolve w p) = Some c
               \<and> lookup (root w) (butlast (resolve w p) @ [n]) = None
               \<and> \<not> io_fault w (resolve w p) \<and> \<not> io_fault w (butlast (resolve w p) @ [n])
               \<and> \<not> off_volume w (butlast (resolve w p) @ [n]) \<longrightarrow>
         fst (rename_selected_game st w (Some n)) = None
         \<and> fst (snd (rename_selected_game st w (Some n)))
             = scan_games st (snd (snd (rename_selected_game st w (Some n))))
         \<and> file_at (root (snd (snd (rename_selected_game st w (Some n))))) (butlast (resolve w p) @ [n]) = Some c
         \<and> file_at (root (snd (snd (rename_selected_game st w (Some n))))) (resolve w p) = None)"
proof (intro conjI allI impI)
  assume "answer = None \<or> answer = Some [] \<or> (\<exists>n. answer = Some n \<and> \<not> endswith (lower n) ''.exe'')"
  then show "snd (snd (rename_selected_game st w answer)) = w" by (rule rename_rejected)
next
  show "snd (snd (rename_selected_game st w answer)) = w
       \<or> (\<exists>p n. answer = Some n \<and> n \<noteq> [] \<and> endswith (lower n) ''.exe'' \<and> rename_target st w = Some p
               \<and> snd (snd (rename_selected_game st w answer))
                   = snd (os_rename w p (os_path_join (os_path_dirname p) (path_of_text (platform w) n))))"
  proof (cases "rename_target st w")
    case None
    then show ?thesis by (simp add: rename_unresolved)
  next
    case (Some p)
    show ?thesis
    proof (cases "answer = None \<or> answer = Some [] \<or> (\<exists>n. answer = Some n \<and> \<not> endswith (lower n) ''.exe'')")
      case True
      then show ?thesis by (simp add: rename_rejected)
    next
      case False
      then obtain n where n: "answer = Some n" "n \<noteq> []" "endswith (lower n) ''.exe''" by auto
      from rename_accepted[OF Some n(2,3)] n(1)
      have "snd (snd (rename_selected_game st w answer))
                   = snd (os_rename w p (os_path_join (os_path_dirname p) (path_of_text (platform w) n)))"
        by (simp add: try_catch_world)
      with n Some show ?thesis by blast
    qed
  qed
next
  fix os n p
  assume "plain_name os n"
  then show "os_path_dirname (os_path_join (os_path_dirname p) (path_of_text os n)) = os_path_dirname p"
    by (rule rename_same_directory)
next
  fix p n c
  assume a: "rename_target st w = Some p \<and> parts p \<noteq> [] \<and> plain_name (platform w) n
               \<and> endswith (lower n) ''.exe''
               \<and> file_at (root w) (resolve w p) = Some c
               \<and> lookup (root w) (butlast (resolve w p) @ [n]) = None
               \<and> \<not> io_fault w (resolve w p) \<and> \<not> io_fault w (butlast (resolve w p) @ [n])
               \<and> \<not> off_volume w (butlast (resolve w p) @ [n])"
  let ?new = "os_path_join (os_path_dirname p) (path_of_text (platform w) n)"
  from a have t: "rename_target st w = Some p" and np: "parts p \<noteq> []"
    and pn: "plain_name (platform w) n" and ext: "endswith (lower n) ''.exe''" by simp_all
  from pn have nne: "n \<noteq> []" by (simp add: plain_name_def)
  from a have "lookup (root w) (resolve w p) = Some (File c)"
    by (auto simp: file_at_def split: option.splits node.splits)
  note m = os_rename_moves[OF assms this refl resolve_sibling[OF pn np] refl resolve_nonempty[OF np]]
  from a have h: "lookup (root w) (butlast (resolve w p) @ [n]) = None"
    "\<not> io_fault w (resolve w p)" "\<not> io_fault w (butlast (resolve w p) @ [n])"
    "\<not> off_volume w (butlast (resolve w p) @ [n])" by simp_all
  note m1 = m[OF h]
  obtain w1 where r: "os_rename w p ?new = (None, w1)"
    using m1(1) by (cases "os_rename w p ?new") auto
  from rename_accepted[OF t nne ext] r
  have e: "rename_selected_game st w (Some n) = (None, scan_games st w1, w1)"
    by (simp add: try_catch_def)
  from e show "fst (rename_selected_game st w (Some n)) = None" by simp
  from e show "fst (snd (rename_selected_game st w (Some n)))
             = scan_games st (snd (snd (rename_selected_game st w (Some n))))" by simp
  from e r m1(2) show "file_at (root (snd (snd (rename_selected_game st w (Some n))))) (butlast (resolve w p) @ [n]) = Some c"
    by simp
  from e r m1(3) show "file_at (root (snd (snd (rename_selected_game st w (Some n))))) (resolve w p) = None"
    by simp
qed

text \<open>
  As the claim states it, the new path is always in the directory of the original file.
  A name with a separator is accepted when it ends with \<^verbatim>\<open>.exe\<close>, and the game then
  moves to another directory: on POSIX with a slash, on Windows also with a backslash.
  On Windows a name with a drive in front is accepted as well, and the new path is then
  not below the directory of the game at all.
\<close>

theorem rename_leaves_directory_counterexample:
  "rename_target first_selected example_world = Some (Path True [''app'', ''games'', ''b.EXE''])
   \<and> endswith (lower ''Sub/moved.exe'') ''.exe''
   \<and> file_at (root (snd (snd (rename_selected_game first_selected example_world (Some ''Sub/moved.exe'')))))
        [''app'', ''games'', ''b.EXE''] = None
   \<and> file_at (root (snd (snd (rename_selected_game first_selected example_world (Some ''Sub/moved.exe'')))))
        [''app'', ''games'', ''Sub'', ''moved.exe''] = Some ''game b''
   \<and> os_path_dirname (os_path_join (os_path_dirname (Path True [''app'', ''games'', ''b.EXE'']))
                                     (path_of_text Posix ''Sub/moved.exe''))
        \<noteq> os_path_dirname (Path True [''app'', ''games'', ''b.EXE''])
   \<and> rename_target windows_selected windows_world = Some (PathD ''C:'' True [''app'', ''games'', ''sub1.exe''])
   \<and> file_at (root (snd (snd (rename_selected_game windows_selected windows_world
                                   (Some (''sub'' @ backslash # ''moved.exe''))))))
        [''c:'', ''app'', ''games'', ''sub'', ''moved.exe''] = Some ''game 1''
   \<and> endswith (lower ''D:moved.exe'') ''.exe''
   \<and> os_path_join (os_path_dirname (PathD ''C:'' True [''app'', ''games'', ''sub1.exe'']))
                   (path_of_text Windows ''D:moved.exe'')
        = PathD ''D:'' False [''moved.exe'']"
  by code_simp

text \<open>
  A rejected name, a cancelled dialog, and a bare name on the example: the game is
  afterwards under the new name in its directory.
\<close>

theorem rename_selected_game_guard_witness:
  "wf_node (root example_world)
   \<and> snd (snd (rename_selected_game first_selected example_world (Some ''renamed.txt''))) = example_world
   \<and> snd (snd (rename_selected_game first_selected example_world None)) = example_world
   \<and> os_path_dirname (os_path_join (os_path_dirname (Path True [''app'', ''games'', ''b.EXE''])) (path_of_text Windows ''c.exe''))
       = os_path_dirname (Path True [''app'', ''games'', ''b.EXE''])
   \<and> file_at (root (snd (snd (rename_selected_game first_selected example_world (Some ''c.exe'')))))
        [''app'', ''games'', ''c.exe''] = Some ''game b''
   \<and> file_at (root (snd (snd (rename_selected_game first_selected example_world (Some ''c.exe'')))))
        [''app'', ''games'', ''b.EXE''] = None"
proof -
  let ?p = "Path True [''app'', ''games'', ''b.EXE'']"
  have wf: "wf_node (root example_world)" by code_simp
  note t = rename_selected_game_guard [OF wf, of _ first_selected]
  have a: "\<not> endswith (lower ''renamed.txt'') ''.exe''" by code_simp
  have b: "plain_name Windows ''c.exe''" by code_simp
  from t [of "Some ''renamed.txt''", THEN conjunct1] a
  have r1: "snd (snd (rename_selected_game first_selected example_world (Some ''renamed.txt''))) = example_world"
    by simp
  from t [of None, THEN conjunct1]
  have r2: "snd (snd (rename_selected_game first_selected example_world None)) = example_world"
    by simp
  from t [of None, THEN conjunct2, THEN conjunct2, THEN conjunct1, rule_format, OF b]
  have r3: "os_path_dirname (os_path_join (os_path_dirname ?p) (path_of_text Windows ''c.exe''))
       = os_path_dirname ?p" .
  have h: "rename_target first_selected example_world = Some ?p \<and> parts ?p \<noteq> []
               \<and> plain_name (platform example_world) ''c.exe''
               \<and> endswith (lower ''c.exe'') ''.exe''
               \<and> file_at (root example_world) (resolve example_world ?p) = Some ''game b''
               \<and> lookup (root example_world) (butlast (resolve example_world ?p) @ [''c.exe'']) = None
               \<and> \<not> io_fault example_world (resolve example_world ?p)
               \<and> \<not> io_fault example_world (butlast (resolve example_world ?p) @ [''c.exe''])
               \<and> \<not> off_volume example_world (butlast (resolve example_world ?p) @ [''c.exe''])"
    by code_simp
  have q: "resolve example_world ?p = [''app'', ''games'', ''b.EXE'']" by code_simp
  from t [of None, THEN conjunct2, THEN conjunct2, THEN conjunct2, rule_format, OF h]
  have r4: "file_at (root (snd (snd (rename_selected_game first_selected example_world (Some ''c.exe'')))))
              (butlast (resolve example_world ?p) @ [''c.exe'']) = Some ''game b''"
    and r5: "file_at (root (snd (snd (rename_selected_game first_selected example_world (Some ''c.exe'')))))
              (resolve example_world ?p) = None"
    by simp_all
  from wf r1 r2 r3 r4 r5 q show ?thesis by simp
qed

subsection \<open>Failures are caught\<close>

lemma upload_loop_step:
  "upload_loop st w (src # files) =
     (case safe_copy_file w (path_of_text (platform w) src) (upload_dst (platform w) st src) of
        (None, w1) \<Rightarrow> upload_loop st w1 files
      | (Some e, w1) \<Rightarrow>
          upload_loop (showerror ''Upload error'' (''Failed to copy '' @ src @ '':'' @ nl @ exn_text e) st)
            w1 files)"
  by (simp add: try_catch_def upload_dst_def Let_def split: prod.splits option.splits)

lemma upload_loop_total: "fst (upload_loop st w files) = None"
proof (induction files arbitrary: st w)
  case Nil
  show ?case by simp
next
  case (Cons src files)
  show ?case
    unfolding upload_loop_step by (simp add: Cons.IH split: prod.splits option.splits)
qed

lemma upload_dst_showerror [simp]: "upload_dst os (showerror t m st) = upload_dst os st"
  by (simp add: upload_dst_def showerror_def fun_eq_iff)

lemma upload_loop_world:
  "snd (snd (upload_loop st w files))
     = foldl (\<lambda>w src. snd (safe_copy_file w (path_of_text (platform w) src) (upload_dst (platform w) st src))) w files"
proof (induction files arbitrary: st w)
  case Nil
  show ?case by simp
next
  case (Cons src files)
  show ?case
    unfolding upload_loop_step
    by (cases "safe_copy_file w (path_of_text (platform w) src) (upload_dst (platform w) st src)")
       (auto simp: Cons.IH split: option.splits)
qed

lemma upload_files_rescan:
  "files \<noteq> [] \<Longrightarrow>
   upload_files st w files
     = (None, scan_games (fst (snd (upload_loop st w files))) (snd (snd (upload_loop st w files))),
        snd (snd (upload_loop st w files)))"
  using upload_loop_total[of st w files]
  by (cases "upload_loop st w files") (auto simp: upload_files_def)

lemma upload_files_total: "fst (upload_files st w files) = None"
  using upload_loop_total[of st w files]
  by (cases "upload_loop st w files") (auto simp: upload_files_def)

lemma upload_folder_total: "fst (upload_folder st w src) = None"
  by (auto simp: upload_folder_def try_catch_def Let_def split: prod.splits option.splits)

lemma upload_folder_failure:
  "src \<noteq> [] \<Longrightarrow> safe_copy_folder w (path_of_text (platform w) src) (folder_dst (platform w) st src) = (Some e, w1) \<Longrightarrow>
   upload_folder st w src
     = (None, scan_games (showerror ''Upload error'' (''Failed to copy folder:'' @ nl @ exn_text e) st) w1, w1)"
  by (simp add: upload_folder_def try_catch_def folder_dst_def Let_def)

lemma launch_modder_total: "fst (launch_modder st w) = None"
  by (auto simp: launch_modder_def try_catch_def Let_def split: prod.splits option.splits)

lemma launch_modder_failure:
  "os_path_exists w (modder_path st) \<Longrightarrow> subprocess_Popen w [modder_path st] (base_dir st) = (Some e, w1) \<Longrightarrow>
   launch_modder st w
     = (None, showerror ''Launch error'' (''Failed to launch modder:'' @ nl @ exn_text e) st, w1)"
  by (simp add: launch_modder_def try_catch_def Let_def)

lemma play_total: "fst (play_selected_game st w fm) = None"
proof (cases fm)
  case True
  then show ?thesis
    by (auto simp: play_selected_game_def try_catch_def split: prod.splits option.splits)
next
  case False
  with get_selected_game_eq[of st w] show ?thesis
    by (auto simp: play_selected_game_def try_catch_def split: prod.splits option.splits)
qed

lemma play_failure:
  assumes "selected_path st w fm = Some p" "\<not> falsy (Some p)" "os_path_exists w p"
    "subprocess_Popen w [p] (os_path_dirname p) = (Some e, w1)"
  shows "play_selected_game st w fm
     = (None, showerror ''Play error'' (''Failed to launch game:'' @ nl @ exn_text e) st, w1)"
proof (cases fm)
  case True
  with assms(1) have "modded_sel st \<noteq> []" "resolve_row st w (lb_get (modded_listbox st) (hd (modded_sel st))) = Some p"
    by (auto simp: selected_path_def split: if_splits)
  with True assms(2-) show ?thesis by (simp add: play_selected_game_def try_catch_def)
next
  case False
  with assms(1) get_selected_game_eq[of st w] have "get_selected_game st False = Inr (Some p)" by simp
  with False assms(2-) show ?thesis by (simp add: play_selected_game_def try_catch_def)
qed

lemma delete_total: "fst (delete_selected_game st w confirm) = None"
  by (auto simp: delete_selected_game_def try_catch_def Let_def split: option.splits prod.splits)

lemma delete_failure:
  "confirm \<Longrightarrow> delete_target st w = Some p \<Longrightarrow> os_remove w p = (Some e, w1) \<Longrightarrow>
   delete_selected_game st w confirm
     = (None, showerror ''Delete error'' (''Failed to delete:'' @ nl @ exn_text e) st, w1)"
  by (simp add: delete_done try_catch_def)

lemma rename_total: "fst (rename_selected_game st w answer) = None"
  by (auto simp: rename_selected_game_def try_catch_def Let_def split: option.splits prod.splits)

lemma rename_failure:
  "rename_target st w = Some p \<Longrightarrow> n \<noteq> [] \<Longrightarrow> endswith (lower n) ''.exe'' \<Longrightarrow>
   os_rename w p (os_path_join (os_path_dirname p) (path_of_text (platform w) n)) = (Some e, w1) \<Longrightarrow>
   rename_selected_game st w (Some n)
     = (None, showerror ''Rename error'' (''Failed to rename:'' @ nl @ exn_text e) st, w1)"
  by (simp add: rename_accepted try_catch_def)

text \<open>
  Claim C4. None of the handlers for upload, launch, play, delete and rename lets an
  exception escape, whatever the world and the answers of the user. When the operating
  system call of a handler raises, the handler shows one error message with the text of
  the exception and the world stays the one the failing call left: nothing is tried
  again. In \<^verbatim>\<open>upload_files\<close> a failing copy is followed by the copies of the
  remaining files, each attempted once and in order, and by the rescan.
\<close>

theorem handlers_catch_failures:
  "fst (upload_files st w files) = None
   \<and> fst (upload_folder st w src) = None
   \<and> fst (launch_modder st w) = None
   \<and> fst (play_selected_game st w from_modded) = None
   \<and> fst (delete_selected_game st w confirm) = None
   \<and> fst (rename_selected_game st w answer) = None
   \<and> (\<forall>f e w1. safe_copy_file w (path_of_text (platform w) f) (upload_dst (platform w) st f) = (Some e, w1) \<longrightarrow>
         upload_loop st w (f # files)
           = upload_loop (showerror ''Upload error'' (''Failed to copy '' @ f @ '':'' @ nl @ exn_text e) st)
               w1 files)
   \<and> snd (snd (upload_loop st w files))
        = foldl (\<lambda>w f. snd (safe_copy_file w (path_of_text (platform w) f) (upload_dst (platform w) st f))) w files
   \<and> (files \<noteq> [] \<longrightarrow>
         upload_files st w files
           = (None, scan_games (fst (snd (upload_loop st w files))) (snd (snd (upload_loop st w files))),
              snd (snd (upload_loop st w files))))
   \<and> (\<forall>e w1. src \<noteq> [] \<and> safe_copy_folder w (path_of_text (platform w) src) (folder_dst (platform w) st src) = (Some e, w1) \<longrightarrow>
         upload_folder st w src
           = (None, scan_games (showerror ''Upload error'' (''Failed to copy folder:'' @ nl @ exn_text e) st) w1, w1))
   \<and> (\<forall>e w1. os_path_exists w (modder_path st)
               \<and> subprocess_Popen w [modder_path st] (base_dir st) = (Some e, w1) \<longrightarrow>
         launch_modder st w
           = (None, showerror ''Launch error'' (''Failed to launch modder:'' @ nl @ exn_text e) st, w1))
   \<and> (\<forall>p e w1. selected_path st w from_modded = Some p \<and> \<not> falsy (Some p) \<and> os_path_exists w p
               \<and> subprocess_Popen w [p] (os_path_dirname p) = (Some e, w1) \<longrightarrow>
         play_selected_game st w from_modded
           = (None, showerror ''Play error'' (''Failed to launch game:'' @ nl @ exn_text e) st, w1))
   \<and> (\<forall>p e w1. confirm \<and> delete_target st w = Some p \<and> os_remove w p = (Some e, w1) \<longrightarrow>
         delete_selected_game st w confirm
           = (None, showerror ''Delete error'' (''Failed to delete:'' @ nl @ exn_text e) st, w1))
   \<and> (\<forall>p n e w1. rename_target st w = Some p \<and> n \<noteq> [] \<and> endswith (lower n) ''.exe''
               \<and> os_rename w p (os_path_join (os_path_dirname p) (path_of_text (platform w) n)) = (Some e, w1) \<longrightarrow>
         rename_selected_game st w (Some n)
           = (None, showerror ''Rename error'' (''Failed to rename:'' @ nl @ exn_text e) st, w1))"
proof (intro conjI allI impI)
  fix f e w1
  assume "safe_copy_file w (path_of_text (platform w) f) (upload_dst (platform w) st f) = (Some e, w1)"
  then show "upload_loop st w (f # files)
           = upload_loop (showerror ''Upload error'' (''Failed to copy '' @ f @ '':'' @ nl @ exn_text e) st)
               w1 files"
    by (subst upload_loop_step) simp
next
  fix e w1
  assume "src \<noteq> [] \<and> safe_copy_folder w (path_of_text (platform w) src) (folder_dst (platform w) st src) = (Some e, w1)"
  then show "upload_folder st w src
           = (None, scan_games (showerror ''Upload error'' (''Failed to copy folder:'' @ nl @ exn_text e) st) w1, w1)"
    by (simp add: upload_folder_failure)
next
  fix e w1
  assume "os_path_exists w (modder_path st) \<and> subprocess_Popen w [modder_path st] (base_dir st) = (Some e, w1)"
  then show "launch_modder st w
           = (None, showerror ''Launch error'' (''Failed to launch modder:'' @ nl @ exn_text e) st, w1)"
    by (simp add: launch_modder_failure)
next
  fix p e w1
  assume "selected_path st w from_modded = Some p \<and> \<not> falsy (Some p) \<and> os_path_exists w p
               \<and> subprocess_Popen w [p] (os_path_dirname p) = (Some e, w1)"
  then show "play_selected_game st w from_modded
           = (None, showerror ''Play error'' (''Failed to launch game:'' @ nl @ exn_text e) st, w1)"
    by (simp add: play_failure)
next
  fix p e w1
  assume "confirm \<and> delete_target st w = Some p \<and> os_remove w p = (Some e, w1)"
  then show "delete_selected_game st w confirm
           = (None, showerror ''Delete error'' (''Failed to delete:'' @ nl @ exn_text e) st, w1)"
    by (simp add: delete_failure)
next
  fix p n e w1
  assume "rename_target st w = Some p \<and> n \<noteq> [] \<and> endswith (lower n) ''.exe''
               \<and> os_rename w p (os_path_join (os_path_dirname p) (path_of_text (platform w) n)) = (Some e, w1)"
  then show "rename_selected_game st w (Some n)
           = (None, showerror ''Rename error'' (''Failed to rename:'' @ nl @ exn_text e) st, w1)"
    by (simp add: rename_failure)
next
  assume "files \<noteq> []"
  then show "upload_files st w files
           = (None, scan_games (fst (snd (upload_loop st w files))) (snd (snd (upload_loop st w files))),
              snd (snd (upload_loop st w files)))"
    by (rule upload_files_rescan)
qed (simp_all add: upload_files_total upload_folder_total launch_modder_total play_total delete_total
       rename_total upload_loop_world)

text \<open>
  On the example with a file that cannot be read: its copy fails, the next file is
  copied over the game of the same name, and one message was shown.
\<close>

theorem handlers_catch_failures_witness:
  "fst (safe_copy_file locked_world (path_of_text Posix ''/downloads/new.exe'')
          (upload_dst Posix scanned_launcher ''/downloads/new.exe'')) = Some PermissionError
   \<and> upload_loop scanned_launcher locked_world [''/downloads/new.exe'', ''/downloads/b.EXE'']
       = upload_loop
           (showerror ''Upload error'' (''Failed to copy /downloads/new.exe:'' @ nl @ ''PermissionError'')
              scanned_launcher)
           (snd (safe_copy_file locked_world (path_of_text Posix ''/downloads/new.exe'')
                   (upload_dst Posix scanned_launcher ''/downloads/new.exe'')))
           [''/downloads/b.EXE'']
   \<and> file_at (root (snd (snd (upload_files scanned_launcher locked_world
                                   [''/downloads/new.exe'', ''/downloads/b.EXE'']))))
        [''app'', ''games'', ''b.EXE''] = Some ''game b2''
   \<and> dialogs (fst (snd (upload_files scanned_launcher locked_world
                            [''/downloads/new.exe'', ''/downloads/b.EXE''])))
       = [ShowError ''Upload error'' (''Failed to copy /downloads/new.exe:'' @ nl @ ''PermissionError'')]"
proof -
  let ?r = "safe_copy_file locked_world (path_of_text Posix ''/downloads/new.exe'')
              (upload_dst Posix scanned_launcher ''/downloads/new.exe'')"
  have f: "fst ?r = Some PermissionError" by code_simp
  then have h: "?r = (Some PermissionError, snd ?r)" by (metis prod.collapse)
  have pl: "platform locked_world = Posix" by code_simp
  note t = handlers_catch_failures [of scanned_launcher locked_world "[''/downloads/b.EXE'']", unfolded pl]
  from t [THEN conjunct2, THEN conjunct2, THEN conjunct2, THEN conjunct2, THEN conjunct2, THEN conjunct2,
          THEN conjunct1, rule_format, OF h]
  have l: "upload_loop scanned_launcher locked_world [''/downloads/new.exe'', ''/downloads/b.EXE'']
       = upload_loop
           (showerror ''Upload error'' (''Failed to copy /downloads/new.exe:'' @ nl @ ''PermissionError'')
              scanned_launcher)
           (snd ?r) [''/downloads/b.EXE'']"
    by simp
  have c: "file_at (root (snd (snd (upload_files scanned_launcher locked_world
                                   [''/downloads/new.exe'', ''/downloads/b.EXE'']))))
        [''app'', ''games'', ''b.EXE''] = Some ''game b2''"
    by code_simp
  have d: "dialogs (fst (snd (upload_files scanned_launcher locked_world
                            [''/downloads/new.exe'', ''/downloads/b.EXE''])))
       = [ShowError ''Upload error'' (''Failed to copy /downloads/new.exe:'' @ nl @ ''PermissionError'')]"
    by code_simp
  from f l c d show ?thesis by simp
qed

subsection \<open>The event loop\<close>

lemma try_catch_shape1:
  "try_catch (case r of (e, w') \<Rightarrow> (e, st, w')) (\<lambda>e st w. (None, h e st, w))
     = (None, (case fst r of None \<Rightarrow> st | Some e \<Rightarrow> h e st), snd r)"
  by (cases r) (auto simp: try_catch_def split: option.splits)

lemma try_catch_shape2:
  "try_catch (case r of (Some e, w') \<Rightarrow> (Some e, st, w') | (None, w') \<Rightarrow> (None, g w', w'))
             (\<lambda>e st w. (None, h e st, w))
     = (None, (case fst r of None \<Rightarrow> g (snd r) | Some e \<Rightarrow> h e st), snd r)"
  by (cases r) (auto simp: try_catch_def split: option.splits)

lemma config_simps [simp]:
  "config (scan_games st w) = config st"
  "config (showerror t m st) = config st"
  "config (showwarning t m st) = config st"
  "config (update_modder_label b st) = config st"
  by (simp_all add: config_def scan_games_eq showerror_def showwarning_def update_modder_label_def Let_def)

lemma config_case_option [simp]:
  "config (case x of None \<Rightarrow> a | Some e \<Rightarrow> b e) = (case x of None \<Rightarrow> config a | Some e \<Rightarrow> config (b e))"
  by (cases x) simp_all

lemma case_option_const [simp]: "(case x of None \<Rightarrow> c | Some e \<Rightarrow> c) = c"
  by (cases x) simp_all

lemma config_upload_loop: "config (fst (snd (upload_loop st w files))) = config st"
proof (induction files arbitrary: st w)
  case Nil
  show ?case by simp
next
  case (Cons src files)
  show ?case
    unfolding upload_loop_step
    by (cases "safe_copy_file w (path_of_text (platform w) src) (upload_dst (platform w) st src)")
       (auto simp: Cons.IH split: option.splits)
qed

lemma config_upload_files: "config (fst (snd (upload_files st w files))) = config st"
  using config_upload_loop[of st w files]
  by (cases "upload_loop st w files") (auto simp: upload_files_def split: option.splits)

lemma config_upload_folder: "config (fst (snd (upload_folder st w src))) = config st"
  by (simp add: upload_folder_def try_catch_shape1 Let_def split: option.splits)

lemma config_launch: "config (fst (snd (launch_modder st w))) = config st"
  by (simp add: launch_modder_def try_catch_shape2 Let_def split: option.splits)

lemma config_play: "config (fst (snd (play_selected_game st w fm))) = config st"
  by (simp add: play_selected_game_def try_catch_shape1 get_selected_game_eq[of st w]
           split: option.splits)

lemma config_delete: "config (fst (snd (delete_selected_game st w c))) = config st"
  by (simp add: delete_selected_game_def try_catch_shape2 Let_def split: option.splits)

lemma config_rename: "config (fst (snd (rename_selected_game st w a))) = config st"
  by (simp add: rename_selected_game_def try_catch_shape2 Let_def split: option.splits)

lemma poll_modder_status_eq:
  "\<exists>running. is_process_running env MODDER_EXE = Inr running
     \<and> poll_modder_status st env
         = (None, st\<lparr>modder_status_label :=
                        (if running then ''Modder status: running'' else ''Modder status: not running''),
                      after_queue := after_queue st @ [(STATUS_POLL_MS, PollModderStatus)]\<rparr>)"
proof -
  have "\<exists>b. is_process_running env MODDER_EXE = Inr b"
    by (auto simp: is_process_running_def try_except_def tasklist_check_def Let_def
             split: sum.splits bool.splits)
  then obtain b where b: "is_process_running env MODDER_EXE = Inr b" by blast
  then show ?thesis
    by (auto simp: poll_modder_status_def update_modder_label_def Let_def)
qed

lemma dirs_of_config:
  "config st' = config st \<Longrightarrow> base_dir st' = base_dir st \<and> games_dir st' = games_dir st"
  by (simp add: config_def)

lemma handle_config:
  "(\<forall>env. ev \<noteq> TimerDue env) \<Longrightarrow> config (fst (snd (handle ev st w))) = config st"
  by (cases ev)
     (simp_all add: config_upload_files config_upload_folder config_launch config_play config_delete
        config_rename, simp add: config_def)

lemma handle_timer:
  "\<exists>running. handle (TimerDue env) st w
     = (case after_queue st of
          [] \<Rightarrow> (None, st, w)
        | t # rest \<Rightarrow>
            (None, st\<lparr>modder_status_label :=
                        (if running then ''Modder status: running'' else ''Modder status: not running''),
                      after_queue := rest @ [(STATUS_POLL_MS, PollModderStatus)]\<rparr>, w))"
proof (cases "after_queue st")
  case Nil
  then show ?thesis by simp
next
  case (Cons t rest)
  obtain ms cb where t: "t = (ms, cb)" by (cases t)
  have cb: "cb = PollModderStatus" by (cases cb)
  from poll_modder_status_eq[of env "st\<lparr>after_queue := rest\<rparr>"] obtain running where
    "poll_modder_status (st\<lparr>after_queue := rest\<rparr>) env
         = (None, st\<lparr>after_queue := rest, modder_status_label :=
                        (if running then ''Modder status: running'' else ''Modder status: not running''),
                      after_queue := rest @ [(STATUS_POLL_MS, PollModderStatus)]\<rparr>)"
    by auto
  with Cons t cb show ?thesis by (intro exI[of _ running]) simp
qed

lemma handle_dirs:
  "base_dir (fst (snd (handle ev st w))) = base_dir st
   \<and> games_dir (fst (snd (handle ev st w))) = games_dir st"
proof (cases "\<exists>env. ev = TimerDue env")
  case True
  then obtain env where ev: "ev = TimerDue env" by blast
  from handle_timer[of env st w] ev show ?thesis
    by (auto split: list.splits)
next
  case False
  then have "config (fst (snd (handle ev st w))) = config st" by (simp add: handle_config)
  then show ?thesis by (rule dirs_of_config)
qed

lemma handle_polling: "polling st \<Longrightarrow> polling (fst (snd (handle ev st w)))"
proof (cases "\<exists>env. ev = TimerDue env")
  case True
  assume p: "polling st"
  from True obtain env where ev: "ev = TimerDue env" by blast
  from handle_timer[of env st w] ev p show ?thesis
    by (auto simp: polling_def)
next
  case False
  assume p: "polling st"
  from False have "config (fst (snd (handle ev st w))) = config st" by (simp add: handle_config)
  with p show ?thesis by (simp add: polling_def config_def)
qed

lemma mainloop_polling: "polling (fst s) \<Longrightarrow> polling (fst (mainloop evs s))"
  by (induction evs arbitrary: s) (simp_all add: handle_polling)

lemma mainloop_dirs:
  "base_dir (fst (mainloop evs s)) = base_dir (fst s) \<and> games_dir (fst (mainloop evs s)) = games_dir (fst s)"
  by (induction evs arbitrary: s) (simp_all add: handle_dirs)

lemma launcher_init_ok:
  assumes "fst (launcher_init base w env) = None"
  shows "\<exists>w1 running. os_makedirs w (os_path_join base (path_of_name GAMES_FOLDER_NAME)) = (None, w1)
     \<and> launcher_init base w env
         = (None,
            (scan_games \<lparr>base_dir = base,
                 games_dir = os_path_join base (path_of_name GAMES_FOLDER_NAME),
                 games = [], games_listbox = [], games_sel = [],
                 modded_listbox = [], modded_sel = [],
                 modder_status_label = ''Modder status: unknown'',
                 dialogs = [], after_queue = []\<rparr> w1)
              \<lparr>modder_status_label :=
                 (if running then ''Modder status: running'' else ''Modder status: not running''),
               after_queue := [(STATUS_POLL_MS, PollModderStatus)]\<rparr>, w1)"
proof -
  let ?st0 = "\<lparr>base_dir = base,
                 games_dir = os_path_join base (path_of_name GAMES_FOLDER_NAME),
                 games = [], games_listbox = [], games_sel = [],
                 modded_listbox = [], modded_sel = [],
                 modder_status_label = ''Modder status: unknown'',
                 dialogs = [], after_queue = []\<rparr>"
  obtain e w1 where m: "os_makedirs w (os_path_join base (path_of_name GAMES_FOLDER_NAME)) = (e, w1)"
    by (cases "os_makedirs w (os_path_join base (path_of_name GAMES_FOLDER_NAME))")
  with assms have e: "e = None" by (cases e) (simp_all add: launcher_init_def)
  from poll_modder_status_eq[of env "scan_games ?st0 w1"] obtain running where
    p: "poll_modder_status (scan_games ?st0 w1) env
         = (None, (scan_games ?st0 w1)\<lparr>modder_status_label :=
                        (if running then ''Modder status: running'' else ''Modder status: not running''),
                      after_queue := after_queue (scan_games ?st0 w1) @ [(STATUS_POLL_MS, PollModderStatus)]\<rparr>)"
    by blast
  have q: "after_queue (scan_games ?st0 w1) = []" by (simp add: scan_games_eq Let_def)
  from m e p q show ?thesis
    by (intro exI[of _ w1] exI[of _ running]) (simp add: launcher_init_def)
qed

lemma init_polling:
  "fst (launcher_init base w env) = None \<Longrightarrow> polling (fst (snd (launcher_init base w env)))"
  by (drule launcher_init_ok) (auto simp: polling_def)

lemma init_dirs:
  "fst (launcher_init base w env) = None \<Longrightarrow>
     base_dir (fst (snd (launcher_init base w env))) = base
     \<and> games_dir (fst (snd (launcher_init base w env))) = os_path_join base (Path False [''games''])"
  by (drule launcher_init_ok)
     (auto simp: scan_games_eq Let_def path_of_name_def GAMES_FOLDER_NAME_def)

text \<open>
  Claim C1, as amended. A scan rebuilds the list from scratch: whatever the list, the
  rows and the selections were before, the state after \<^verbatim>\<open>scan_games\<close> is the same,
  so no former entry survives unless the walk finds it again. On a well-formed tree the
  games found are exactly the paths below \<^verbatim>\<open>games_dir\<close>, at any depth, that are
  files, whose name, lowered, ends with \<^verbatim>\<open>.exe\<close>, and that \<^verbatim>\<open>os.walk\<close> reaches:
  every directory from \<^verbatim>\<open>games_dir\<close> down to the one of the file is one that the
  system agrees to list. Each is found once. When the system refuses no directory, the
  games found are all such files. From a start-up that succeeded on, and whatever events
  follow, \<^verbatim>\<open>games_dir\<close> is the folder \<^verbatim>\<open>games\<close> of the base directory.
\<close>

theorem scan_games_rebuilds_from_scratch:
  assumes "wf_node (root w)"
  shows "scan_games (st\<lparr>games := gs, games_listbox := glb, games_sel := gsel,
                        modded_listbox := mlb, modded_sel := msel\<rparr>) w = scan_games st w
         \<and> (\<forall>p. p \<in> set (games (scan_games st w)) \<longleftrightarrow>
               (\<exists>rel f. p = os_path_join (games_dir st) (Path False (rel @ [f]))
                        \<and> os_path_isfile w p \<and> endswith (lower f) MODDED_EXT
                        \<and> listable w (games_dir st) rel))
         \<and> distinct (games (scan_games st w))
         \<and> ((\<forall>q. \<not> io_fault w q) \<longrightarrow>
               (\<forall>p. p \<in> set (games (scan_games st w)) \<longleftrightarrow>
                  (\<exists>rel f. p = os_path_join (games_dir st) (Path False (rel @ [f]))
                           \<and> os_path_isfile w p \<and> endswith (lower f) MODDED_EXT)))
         \<and> (fst (launcher_init base w0 env) = None \<longrightarrow>
               base_dir (fst (mainloop evs (snd (launcher_init base w0 env)))) = base
               \<and> games_dir (fst (mainloop evs (snd (launcher_init base w0 env))))
                   = os_path_join base (Path False [''games'']))"
proof -
  have found: "p \<in> set (games (scan_games st w)) \<longleftrightarrow>
               (\<exists>rel f. p = os_path_join (games_dir st) (Path False (rel @ [f]))
                        \<and> os_path_isfile w p \<and> endswith (lower f) MODDED_EXT
                        \<and> listable w (games_dir st) rel)" for p
  proof -
    have "p \<in> set (games (scan_games st w)) \<longleftrightarrow>
            (\<exists>d f. p = os_path_join d (Path False [f]) \<and> endswith (lower f) MODDED_EXT
                   \<and> (\<exists>dirs files. (d, dirs, files) \<in> set (os_walk w (games_dir st)) \<and> f \<in> set files))"
      by (simp add: games_scan_games set_scan_walk) blast
    also have "\<dots> \<longleftrightarrow>
            (\<exists>d f. p = os_path_join d (Path False [f]) \<and> endswith (lower f) MODDED_EXT
                   \<and> (\<exists>rel. d = os_path_join (games_dir st) (Path False rel)
                      \<and> os_path_isfile w (os_path_join (games_dir st) (Path False (rel @ [f])))
                      \<and> listable w (games_dir st) rel))"
      by (simp only: os_walk_files[OF assms])
    also have "\<dots> \<longleftrightarrow>
            (\<exists>rel f. p = os_path_join (games_dir st) (Path False (rel @ [f]))
                          \<and> os_path_isfile w p \<and> endswith (lower f) MODDED_EXT
                          \<and> listable w (games_dir st) rel)"
    proof (intro iffI; elim exE conjE)
      fix d f rel
      assume "p = os_path_join d (Path False [f])" "endswith (lower f) MODDED_EXT"
        "d = os_path_join (games_dir st) (Path False rel)"
        "os_path_isfile w (os_path_join (games_dir st) (Path False (rel @ [f])))"
        "listable w (games_dir st) rel"
      then show "\<exists>rel f. p = os_path_join (games_dir st) (Path False (rel @ [f]))
                          \<and> os_path_isfile w p \<and> endswith (lower f) MODDED_EXT
                          \<and> listable w (games_dir st) rel"
        by (intro exI[of _ rel] exI[of _ f]) (simp add: join_name)
    next
      fix rel f
      assume "p = os_path_join (games_dir st) (Path False (rel @ [f]))" "os_path_isfile w p"
        "endswith (lower f) MODDED_EXT" "listable w (games_dir st) rel"
      then show "\<exists>d f. p = os_path_join d (Path False [f]) \<and> endswith (lower f) MODDED_EXT
                   \<and> (\<exists>rel. d = os_path_join (games_dir st) (Path False rel)
                      \<and> os_path_isfile w (os_path_join (games_dir st) (Path False (rel @ [f])))
                      \<and> listable w (games_dir st) rel)"
        by (intro exI[of _ "os_path_join (games_dir st) (Path False rel)"] exI[of _ f] conjI exI[of _ rel])
           (simp_all add: join_name)
    qed
    finally show ?thesis .
  qed
  have all: "p \<in> set (games (scan_games st w)) \<longleftrightarrow>
                  (\<exists>rel f. p = os_path_join (games_dir st) (Path False (rel @ [f]))
                           \<and> os_path_isfile w p \<and> endswith (lower f) MODDED_EXT)"
    if "\<forall>q. \<not> io_fault w q" for p
    using that found[of p] by (simp add: listable_def)
  have same: "scan_games (st\<lparr>games := gs, games_listbox := glb, games_sel := gsel,
                        modded_listbox := mlb, modded_sel := msel\<rparr>) w = scan_games st w"
    by (simp add: scan_games_def sort_keyfn_def display_def Let_def)
  have dirs: "base_dir (fst (mainloop evs (snd (launcher_init base w0 env)))) = base
               \<and> games_dir (fst (mainloop evs (snd (launcher_init base w0 env))))
                   = os_path_join base (Path False [''games''])"
    if i: "fst (launcher_init base w0 env) = None"
    using init_dirs[OF i] mainloop_dirs[of evs "snd (launcher_init base w0 env)"] by simp
  from same found all dirs distinct_games[OF assms, of st] show ?thesis by blast
qed

text \<open>
  As the claim states it, the scan collects every file below the folder of the games
  whose name ends with \<^verbatim>\<open>.exe\<close>. On the example with a subfolder that the system
  refuses to list, the game in that subfolder is such a file, and the scan does not find
  it: the list holds the other game only.
\<close>

theorem scan_skips_unlistable_counterexample:
  "Path True [''app'', ''games'', ''Sub'', ''A.exe'']
     = os_path_join (games_dir example_launcher) (Path False [''Sub'', ''A.exe''])
   \<and> os_path_isfile unlistable_world (Path True [''app'', ''games'', ''Sub'', ''A.exe''])
   \<and> endswith (lower ''A.exe'') MODDED_EXT
   \<and> Path True [''app'', ''games'', ''Sub'', ''A.exe'']
        \<notin> set (games (scan_games example_launcher unlistable_world))
   \<and> games (scan_games example_launcher unlistable_world) = [Path True [''app'', ''games'', ''b.EXE'']]"
  by code_simp

text \<open>
  The theorem on the example: the game in the subfolder is found, and the stale entry
  of the state before the scan plays no part.
\<close>

theorem scan_games_rebuilds_from_scratch_witness:
  "wf_node (root example_world)
   \<and> Path True [''app'', ''games'', ''Sub'', ''A.exe''] \<in> set (games (scan_games example_launcher example_world))
   \<and> distinct (games (scan_games example_launcher example_world))
   \<and> scan_games example_launcher example_world
       = scan_games (example_launcher\<lparr>games := [], games_listbox := [], games_sel := [],
                                      modded_listbox := [], modded_sel := []\<rparr>) example_world
   \<and> fst (launcher_init (Path True [''app'']) bare_world modder_off) = None
   \<and> games_dir (fst (mainloop [Scan, TimerDue modder_on]
                              (snd (launcher_init (Path True [''app'']) bare_world modder_off))))
       = Path True [''app'', ''games'']"
proof -
  let ?p = "Path True [''app'', ''games'', ''Sub'', ''A.exe'']"
  have wf: "wf_node (root example_world)" by code_simp
  note t = scan_games_rebuilds_from_scratch
             [OF wf, where st = example_launcher and gs = "[]" and glb = "[]" and gsel = "[]"
                and mlb = "[]" and msel = "[]" and base = "Path True [''app'']" and ?w0.0 = bare_world
                and env = modder_off and evs = "[Scan, TimerDue modder_on]"]
  have i: "fst (launcher_init (Path True [''app'']) bare_world modder_off) = None" by code_simp
  have j: "os_path_join (Path True [''app'']) (Path False [''games'']) = Path True [''app'', ''games'']"
    by code_simp
  from t [THEN conjunct2, THEN conjunct2, THEN conjunct2, THEN conjunct2, rule_format, OF i] j
  have g: "games_dir (fst (mainloop [Scan, TimerDue modder_on]
                              (snd (launcher_init (Path True [''app'']) bare_world modder_off))))
       = Path True [''app'', ''games'']"
    by simp
  have "?p = os_path_join (games_dir example_launcher) (Path False ([''Sub''] @ [''A.exe'']))
         \<and> os_path_isfile example_world ?p \<and> endswith (lower ''A.exe'') MODDED_EXT
         \<and> listable example_world (games_dir example_launcher) [''Sub'']"
    by code_simp
  then have "\<exists>rel f. ?p = os_path_join (games_dir example_launcher) (Path False (rel @ [f]))
         \<and> os_path_isfile example_world ?p \<and> endswith (lower f) MODDED_EXT
         \<and> listable example_world (games_dir example_launcher) rel"
    by blast
  with t [THEN conjunct2, THEN conjunct1, rule_format, of ?p] have m: "?p \<in> set (games (scan_games example_launcher example_world))"
    by simp
  from t [THEN conjunct2, THEN conjunct2, THEN conjunct1]
  have d: "distinct (games (scan_games example_launcher example_world))" .
  from t [THEN conjunct1]
  have r: "scan_games example_launcher example_world
       = scan_games (example_launcher\<lparr>games := [], games_listbox := [], games_sel := [],
                                      modded_listbox := [], modded_sel := []\<rparr>) example_world"
    by simp
  from wf m d r i g show ?thesis by blast
qed

text \<open>
  Claim C5. The delay is 2000 ms. A poll asks whether \<^verbatim>\<open>FlowlabModdingUtility.exe\<close>
  runs, sets the label to exactly the one or the other of the two texts, and always puts
  itself back into the queue of the event loop. After a start-up that succeeded, and
  whatever events follow (commands, timers that fire, a modder that starts or exits,
  changes of the world from outside), the poll is pending: nothing cancels it.
\<close>

theorem poll_modder_status_reschedules:
  "STATUS_POLL_MS = 2000
   \<and> (\<exists>running. is_process_running env MODDER_EXE = Inr running
        \<and> poll_modder_status st env
            = (None, st\<lparr>modder_status_label :=
                           (if running then ''Modder status: running'' else ''Modder status: not running''),
                         after_queue := after_queue st @ [(STATUS_POLL_MS, PollModderStatus)]\<rparr>))
   \<and> (fst (launcher_init base w env0) = None \<longrightarrow>
        after_queue (fst (mainloop evs (snd (launcher_init base w env0))))
          = [(STATUS_POLL_MS, PollModderStatus)])"
proof (intro conjI impI)
  show "STATUS_POLL_MS = 2000" by (simp add: STATUS_POLL_MS_def)
next
  show "\<exists>running. is_process_running env MODDER_EXE = Inr running
        \<and> poll_modder_status st env
            = (None, st\<lparr>modder_status_label :=
                           (if running then ''Modder status: running'' else ''Modder status: not running''),
                         after_queue := after_queue st @ [(STATUS_POLL_MS, PollModderStatus)]\<rparr>)"
    by (rule poll_modder_status_eq)
next
  assume "fst (launcher_init base w env0) = None"
  then have "polling (fst (snd (launcher_init base w env0)))" by (rule init_polling)
  then have "polling (fst (mainloop evs (snd (launcher_init base w env0))))" by (rule mainloop_polling)
  then show "after_queue (fst (mainloop evs (snd (launcher_init base w env0))))
          = [(STATUS_POLL_MS, PollModderStatus)]"
    by (simp add: polling_def)
qed

text \<open>
  An installation without games, started without a modder; the modder appears and exits
  again, a launch is attempted: the label follows and the poll stays in the queue.
\<close>

theorem poll_modder_status_reschedules_witness:
  "fst (launcher_init (Path True [''app'']) bare_world modder_off) = None
   \<and> modder_status_label (fst (snd (launcher_init (Path True [''app'']) bare_world modder_off)))
       = ''Modder status: not running''
   \<and> after_queue (fst (mainloop [TimerDue modder_on, LaunchModder, TimerDue modder_off, Scan]
                                (snd (launcher_init (Path True [''app'']) bare_world modder_off))))
       = [(2000, PollModderStatus)]
   \<and> modder_status_label (fst (mainloop [TimerDue modder_on]
                                (snd (launcher_init (Path True [''app'']) bare_world modder_off))))
       = ''Modder status: running''
   \<and> modder_status_label (fst (mainloop [TimerDue modder_on, TimerDue modder_off]
                                (snd (launcher_init (Path True [''app'']) bare_world modder_off))))
       = ''Modder status: not running''"
proof -
  let ?i = "launcher_init (Path True [''app'']) bare_world modder_off"
  have a: "fst ?i = None" by code_simp
  have b: "modder_status_label (fst (snd ?i)) = ''Modder status: not running''" by code_simp
  note t = poll_modder_status_reschedules
             [of _ _ "Path True [''app'']" bare_world modder_off
                 "[TimerDue modder_on, LaunchModder, TimerDue modder_off, Scan]"]
  from t [THEN conjunct2, THEN conjunct2, rule_format, OF a] t [THEN conjunct1]
  have c: "after_queue (fst (mainloop [TimerDue modder_on, LaunchModder, TimerDue modder_off, Scan]
                                (snd ?i))) = [(2000, PollModderStatus)]"
    by simp
  have d: "modder_status_label (fst (mainloop [TimerDue modder_on] (snd ?i))) = ''Modder status: running''"
    by code_simp
  have e: "modder_status_label (fst (mainloop [TimerDue modder_on, TimerDue modder_off] (snd ?i)))
             = ''Modder status: not running''"
    by code_simp
  from a b c d e show ?thesis by simp
qed


end
